theory Spec2Isabelle
  imports Main "HOL-Library.Word"
begin

unbundle bit_operations_syntax

section \<open>Data model\<close>

text \<open>
  Go's \<open>byte\<close>, \<open>int64\<close> and \<open>uint64\<close> are machine words. A \<open>[]byte\<close> is a list of
  bytes; no function of the repository writes into a slice it has been given, so the
  aliasing of slices plays no role and values suffice.
\<close>

type_synonym byte = "8 word"
type_synonym int64 = "64 word"
type_synonym uint64 = "64 word"

text \<open>\<open>[]byte(s)\<close> for a Go string: its bytes, in order.\<close>

definition bytes_of_string :: "string \<Rightarrow> byte list" where
  "bytes_of_string s = map (\<lambda>c. of_nat (of_char c)) s"

text \<open>\<open>type Block struct\<close> (blockchain.go).\<close>

record Block =
  Timestamp :: int64
  Data :: "byte list"
  PrevBlockHash :: "byte list"
  Hash :: "byte list"
  ValidatorID :: "byte list"

text \<open>\<open>type Validator struct\<close> (proof of stake).\<close>

record Validator =
  Address :: "byte list"
  Stake :: uint64
  Balance :: uint64

text \<open>
  \<open>type ProofOfWork struct {block; target}\<close> and
  \<open>type ProofOfStake struct {block; validators; threshold}\<close>. A \<open>*big.Int\<close> is an
  unbounded integer. The registry \<open>[]*Validator\<close> is modelled by the validators
  themselves: every pointer in it comes from \<open>createMockValidators\<close> and is never nil.
\<close>

record ProofOfWork =
  pow_block :: Block
  pow_target :: int

record ProofOfStake =
  pos_block :: Block
  pos_validators :: "Validator list"
  pos_threshold :: int

text \<open>The run-time panics that the modelled code can raise.\<close>

datatype panic = IntegerDivideByZero | IndexOutOfRange

section \<open>Library functions used by the code\<close>

subsection \<open>bytes, encoding/binary, math/big\<close>

text \<open>\<open>bytes.Join(s, sep)\<close>: the elements of \<open>s\<close> with \<open>sep\<close> between them.\<close>

fun bytes_Join :: "byte list list \<Rightarrow> byte list \<Rightarrow> byte list" where
  "bytes_Join [] sep = []"
| "bytes_Join [x] sep = x"
| "bytes_Join (x # y # ys) sep = x @ sep @ bytes_Join (y # ys) sep"

text \<open>
  \<open>binary.Write(buff, binary.BigEndian, num)\<close> for an \<open>int64\<close>: the eight bytes of the
  two's complement value, most significant first. It cannot fail for a fixed-size
  value, so \<open>IntToHex\<close> never reaches its \<open>panic(err)\<close>.
\<close>

definition IntToHex :: "int64 \<Rightarrow> byte list" where
  "IntToHex num =
     [ucast (drop_bit 56 num), ucast (drop_bit 48 num), ucast (drop_bit 40 num),
      ucast (drop_bit 32 num), ucast (drop_bit 24 num), ucast (drop_bit 16 num),
      ucast (drop_bit 8 num), ucast num]"

text \<open>
  \<open>binary.BigEndian.Uint64(b)\<close> reads \<open>b[0..7]\<close>; its bounds check \<open>_ = b[7]\<close>
  panics on a slice of fewer than eight bytes. Bytes after the eighth are ignored.
\<close>

fun BigEndian_Uint64 :: "byte list \<Rightarrow> panic + uint64" where
  "BigEndian_Uint64 (b0 # b1 # b2 # b3 # b4 # b5 # b6 # b7 # rest) =
     Inr (ucast b7 OR push_bit 8 (ucast b6) OR push_bit 16 (ucast b5) OR
          push_bit 24 (ucast b4) OR push_bit 32 (ucast b3) OR push_bit 40 (ucast b2) OR
          push_bit 48 (ucast b1) OR push_bit 56 (ucast b0))"
| "BigEndian_Uint64 _ = Inl IndexOutOfRange"

text \<open>\<open>big.Int.SetBytes\<close>: the bytes read as a big-endian unsigned integer.\<close>

definition SetBytes :: "byte list \<Rightarrow> int" where
  "SetBytes buf = foldl (\<lambda>acc b. acc * 256 + uint b) 0 buf"

text \<open>\<open>x.Cmp(y)\<close>: \<open>-1\<close>, \<open>0\<close> or \<open>+1\<close>.\<close>

definition Cmp :: "int \<Rightarrow> int \<Rightarrow> int" where
  "Cmp x y = (if x < y then - 1 else if x = y then 0 else 1)"

text \<open>\<open>z.Lsh(x, n)\<close>: \<open>x\<close> shifted left by \<open>n\<close> bits.\<close>

definition Lsh :: "int \<Rightarrow> nat \<Rightarrow> int" where
  "Lsh x n = push_bit n x"

subsection \<open>crypto/sha256\<close>

text \<open>
  \<open>sha256.Sum256\<close> is SHA-256 of FIPS 180-4, written here as the portable block
  function of the Go library computes it. A \<open>uint32\<close> is an integer kept below
  \<open>2 ^ 32\<close>: every addition and rotation is reduced modulo \<open>2 ^ 32\<close>.
\<close>

type_synonym uint32 = int

definition u32 :: "int \<Rightarrow> uint32" where
  "u32 x = x mod 4294967296"

definition RotateRight32 :: "uint32 \<Rightarrow> nat \<Rightarrow> uint32" where
  "RotateRight32 x n = u32 (drop_bit n x OR push_bit (32 - n) x)"

text \<open>
  The round constants \<open>_K\<close> of the library (the first 32 bits of the fractional parts of
  the cube roots of the first 64 primes), in decimal.
\<close>

definition K256 :: "uint32 list" where
  "K256 =
     [1116352408, 1899447441, 3049323471, 3921009573, 961987163, 1508970993,
      2453635748, 2870763221, 3624381080, 310598401, 607225278, 1426881987,
      1925078388, 2162078206, 2614888103, 3248222580, 3835390401, 4022224774,
      264347078, 604807628, 770255983, 1249150122, 1555081692, 1996064986,
      2554220882, 2821834349, 2952996808, 3210313671, 3336571891, 3584528711,
      113926993, 338241895, 666307205, 773529912, 1294757372, 1396182291,
      1695183700, 1986661051, 2177026350, 2456956037, 2730485921, 2820302411,
      3259730800, 3345764771, 3516065817, 3600352804, 4094571909, 275423344,
      430227734, 506948616, 659060556, 883997877, 958139571, 1322822218,
      1537002063, 1747873779, 1955562222, 2024104815, 2227730452, 2361852424,
      2428436474, 2756734187, 3204031479, 3329325298]"

type_synonym digest =
  "uint32 \<times> uint32 \<times> uint32 \<times> uint32 \<times> uint32 \<times> uint32 \<times> uint32 \<times> uint32"

definition init256 :: digest where
  "init256 = (1779033703, 3144134277, 1013904242, 2773480762,
              1359893119, 2600822924, 528734635, 1541459225)"

text \<open>The sixteen big-endian words of a 64-byte chunk.\<close>

fun chunkWords :: "byte list \<Rightarrow> uint32 list" where
  "chunkWords (b0 # b1 # b2 # b3 # rest) =
     (uint b0 * 16777216 + uint b1 * 65536 + uint b2 * 256 + uint b3) # chunkWords rest"
| "chunkWords _ = []"

text \<open>The message schedule: \<open>w[i]\<close> for \<open>i = 16 .. 63\<close> from the words before it.\<close>

definition nextW :: "uint32 list \<Rightarrow> uint32" where
  "nextW w =
     (let i = length w;
          v1 = w ! (i - 2);
          t1 = RotateRight32 v1 17 XOR RotateRight32 v1 19 XOR drop_bit 10 v1;
          v2 = w ! (i - 15);
          t2 = RotateRight32 v2 7 XOR RotateRight32 v2 18 XOR drop_bit 3 v2
      in u32 (t1 + w ! (i - 7) + t2 + w ! (i - 16)))"

fun schedule :: "nat \<Rightarrow> uint32 list \<Rightarrow> uint32 list" where
  "schedule 0 w = w"
| "schedule (Suc n) w = schedule n (w @ [nextW w])"

fun round256 :: "digest \<Rightarrow> uint32 \<times> uint32 \<Rightarrow> digest" where
  "round256 (a, b, c, d, e, f, g, h) (k, wi) =
     (let t1 = h + (RotateRight32 e 6 XOR RotateRight32 e 11 XOR RotateRight32 e 25)
                 + ((e AND f) XOR (NOT e AND g)) + k + wi;
          t2 = (RotateRight32 a 2 XOR RotateRight32 a 13 XOR RotateRight32 a 22)
                 + ((a AND b) XOR (a AND c) XOR (b AND c))
      in (u32 (t1 + t2), a, b, c, u32 (d + t1), e, f, g))"

fun addDigest :: "digest \<Rightarrow> digest \<Rightarrow> digest" where
  "addDigest (h0, h1, h2, h3, h4, h5, h6, h7) (a, b, c, d, e, f, g, h) =
     (u32 (h0 + a), u32 (h1 + b), u32 (h2 + c), u32 (h3 + d),
      u32 (h4 + e), u32 (h5 + f), u32 (h6 + g), u32 (h7 + h))"

definition block1 :: "digest \<Rightarrow> byte list \<Rightarrow> digest" where
  "block1 dig p = addDigest dig (foldl round256 dig (zip K256 (schedule 48 (chunkWords p))))"

function blockGeneric :: "digest \<Rightarrow> byte list \<Rightarrow> digest" where
  "blockGeneric dig p =
     (if length p \<ge> 64 then blockGeneric (block1 dig (take 64 p)) (drop 64 p) else dig)"
  by pat_completeness auto
termination
  by (relation "measure (\<lambda>(dig, p). length p)") auto

definition BEPutUint32 :: "uint32 \<Rightarrow> byte list" where
  "BEPutUint32 v =
     [word_of_int (drop_bit 24 v), word_of_int (drop_bit 16 v),
      word_of_int (drop_bit 8 v), word_of_int v]"

text \<open>
  The padding of \<open>checkSum\<close>: a \<open>0x80\<close> byte, zero bytes up to 56 modulo 64, and the
  message length in bits as a big-endian \<open>uint64\<close>.
\<close>

definition padding :: "nat \<Rightarrow> byte list" where
  "padding len =
     (let t = (if len mod 64 < 56 then 56 - len mod 64 else 64 + 56 - len mod 64)
      in 0x80 # replicate (t - 1) 0 @ IntToHex (push_bit 3 (of_nat len)))"

fun digestBytes :: "digest \<Rightarrow> byte list" where
  "digestBytes (h0, h1, h2, h3, h4, h5, h6, h7) =
     BEPutUint32 h0 @ BEPutUint32 h1 @ BEPutUint32 h2 @ BEPutUint32 h3 @
     BEPutUint32 h4 @ BEPutUint32 h5 @ BEPutUint32 h6 @ BEPutUint32 h7"

definition Sum256 :: "byte list \<Rightarrow> byte list" where
  "Sum256 data = digestBytes (blockGeneric init256 (data @ padding (length data)))"

section \<open>Proof of work\<close>

definition targetBits :: int where
  "targetBits = 16"

definition MaxInt64 :: int where
  "MaxInt64 = 9223372036854775807"

definition NewProofOfWork :: "Block \<Rightarrow> ProofOfWork" where
  "NewProofOfWork b =
     (let target = 1;
          target = Lsh target (nat (256 - targetBits))
      in \<lparr>pow_block = b, pow_target = target\<rparr>)"

text \<open>
  \<open>prepareData(nonce int)\<close>. Go's \<open>int\<close> has 64 bits here (the comparison with
  \<open>math.MaxInt64\<close> does not compile otherwise); \<open>int64(nonce)\<close> keeps its bits.
\<close>

definition pow_prepareData :: "ProofOfWork \<Rightarrow> int \<Rightarrow> byte list" where
  "pow_prepareData pow nonce =
     bytes_Join
       [PrevBlockHash (pow_block pow),
        Data (pow_block pow),
        IntToHex (Timestamp (pow_block pow)),
        IntToHex (word_of_int targetBits),
        IntToHex (word_of_int nonce)]
       []"

text \<open>
  The loop of \<open>Run\<close>, with its two variables \<open>nonce\<close> and \<open>hash\<close>. The nonce stays
  between 0 and \<open>MaxInt64\<close>, so \<open>nonce++\<close> never overflows.
\<close>

function mine :: "ProofOfWork \<Rightarrow> int \<Rightarrow> byte list \<Rightarrow> int \<times> byte list" where
  "mine pow nonce hash =
     (if nonce < MaxInt64 then
        (let data = pow_prepareData pow nonce;
             hash' = Sum256 data;
             hashInt = SetBytes hash'
         in if Cmp hashInt (pow_target pow) = - 1 then (nonce, hash')
            else mine pow (nonce + 1) hash')
      else (nonce, hash))"
  by pat_completeness auto
termination
  by (relation "measure (\<lambda>(pow, nonce, hash). nat (MaxInt64 - nonce))") auto

definition pow_Run :: "ProofOfWork \<Rightarrow> byte list \<times> byte list" where
  "pow_Run pow =
     (let (nonce, hash) = mine pow 0 (replicate 32 0)
      in (IntToHex (word_of_int nonce), hash))"

definition pow_Validate :: "ProofOfWork \<Rightarrow> panic + bool" where
  "pow_Validate pow =
     (case BigEndian_Uint64 (ValidatorID (pow_block pow)) of
        Inl e \<Rightarrow> Inl e
      | Inr u \<Rightarrow>
          (let nonce = sint u;
               data = pow_prepareData pow nonce;
               hash = Sum256 data;
               hashInt = SetBytes hash;
               isValid = (Cmp hashInt (pow_target pow) = - 1)
           in Inr isValid))"

section \<open>Proof of stake\<close>

definition createMockValidators :: "Validator list" where
  "createMockValidators =
     [\<lparr>Address = bytes_of_string ''validator1'', Stake = 1000, Balance = 5000\<rparr>,
      \<lparr>Address = bytes_of_string ''validator2'', Stake = 2000, Balance = 8000\<rparr>,
      \<lparr>Address = bytes_of_string ''validator3'', Stake = 3000, Balance = 10000\<rparr>]"

definition NewProofOfStake :: "Block \<Rightarrow> ProofOfStake" where
  "NewProofOfStake b =
     (let validators = createMockValidators;
          threshold = 1;
          threshold = Lsh threshold 255
      in \<lparr>pos_block = b, pos_validators = validators, pos_threshold = threshold\<rparr>)"

text \<open>The second loop of \<open>selectValidator\<close>; \<open>None\<close> when it ends without a return.\<close>

fun selectLoop :: "Validator list \<Rightarrow> uint64 \<Rightarrow> uint64 \<Rightarrow> Validator option" where
  "selectLoop [] selection accumulator = None"
| "selectLoop (v # vs) selection accumulator =
     (let accumulator = accumulator + Stake v
      in if selection \<le> accumulator then Some v else selectLoop vs selection accumulator)"

text \<open>
  \<open>selectValidator\<close>, with the value of \<open>rand.Uint64()\<close> as the argument \<open>rnd\<close>.
  \<open>%\<close> on \<open>uint64\<close> panics when the divisor is zero; \<open>pos.validators[0]\<close> panics on
  an empty slice.
\<close>

definition selectValidator :: "ProofOfStake \<Rightarrow> uint64 \<Rightarrow> panic + Validator" where
  "selectValidator pos rnd =
     (let totalStake = foldl (\<lambda>totalStake v. totalStake + Stake v) 0 (pos_validators pos)
      in if totalStake = 0 then Inl IntegerDivideByZero
         else
           (let selection = rnd mod totalStake
            in case selectLoop (pos_validators pos) selection 0 of
                 Some v \<Rightarrow> Inr v
               | None \<Rightarrow>
                   (case pos_validators pos of
                      [] \<Rightarrow> Inl IndexOutOfRange
                    | v # _ \<Rightarrow> Inr v)))"

definition pos_prepareData :: "ProofOfStake \<Rightarrow> Validator \<Rightarrow> byte list" where
  "pos_prepareData pos validator =
     bytes_Join
       [PrevBlockHash (pos_block pos),
        Data (pos_block pos),
        IntToHex (Timestamp (pos_block pos)),
        Address validator,
        IntToHex (Stake validator)]
       []"

definition pos_Run :: "ProofOfStake \<Rightarrow> uint64 \<Rightarrow> panic + byte list \<times> byte list" where
  "pos_Run pos rnd =
     (case selectValidator pos rnd of
        Inl e \<Rightarrow> Inl e
      | Inr validator \<Rightarrow>
          (let data = pos_prepareData pos validator;
               hash = Sum256 data
           in Inr (Address validator, hash)))"

fun validateLoop :: "ProofOfStake \<Rightarrow> Validator list \<Rightarrow> bool" where
  "validateLoop pos [] = False"
| "validateLoop pos (v # vs) =
     (let data = pos_prepareData pos v;
          hash = Sum256 data;
          hashInt = SetBytes hash
      in if Cmp hashInt (pos_threshold pos) = - 1 then True else validateLoop pos vs)"

definition pos_Validate :: "ProofOfStake \<Rightarrow> bool" where
  "pos_Validate pos = validateLoop pos (pos_validators pos)"

section \<open>Consensus selection and block construction\<close>

type_synonym ConsensusType = int

definition POW :: ConsensusType where
  "POW = 0"

definition POS :: ConsensusType where
  "POS = 1"

datatype Consensus = PoW ProofOfWork | PoS ProofOfStake

definition NewConsensus :: "ConsensusType \<Rightarrow> Block \<Rightarrow> Consensus" where
  "NewConsensus consensusType b =
     (if consensusType = POS then PoS (NewProofOfStake b) else PoW (NewProofOfWork b))"

fun Consensus_Run :: "Consensus \<Rightarrow> uint64 \<Rightarrow> panic + byte list \<times> byte list" where
  "Consensus_Run (PoW pow) rnd = Inr (pow_Run pow)"
| "Consensus_Run (PoS pos) rnd = pos_Run pos rnd"

fun Consensus_Validate :: "Consensus \<Rightarrow> panic + bool" where
  "Consensus_Validate (PoW pow) = pow_Validate pow"
| "Consensus_Validate (PoS pos) = Inr (pos_Validate pos)"

text \<open>
  \<open>NewBlock\<close>, with the clock reading \<open>time.Now().Unix()\<close> and the random draw of the
  proof of stake as arguments.
\<close>

definition NewBlock ::
  "int64 \<Rightarrow> uint64 \<Rightarrow> string \<Rightarrow> byte list \<Rightarrow> ConsensusType \<Rightarrow> panic + Block" where
  "NewBlock now rnd data prevBlockHash consensusType =
     (let b = \<lparr>Timestamp = now, Data = bytes_of_string data, PrevBlockHash = prevBlockHash,
                Hash = [], ValidatorID = []\<rparr>;
          consensus = NewConsensus consensusType b
      in case Consensus_Run consensus rnd of
           Inl e \<Rightarrow> Inl e
         | Inr (validatorID, hash) \<Rightarrow> Inr (b\<lparr>Hash := hash, ValidatorID := validatorID\<rparr>))"

section \<open>Reference notions used in the statements\<close>

text \<open>
  The \<open>k\<close>-byte big-endian representation of a natural number, most significant byte
  first (of the number modulo \<open>256 ^ k\<close>).
\<close>

fun big_endian :: "nat \<Rightarrow> nat \<Rightarrow> byte list" where
  "big_endian 0 n = []"
| "big_endian (Suc k) n = big_endian k (n div 256) @ [of_nat (n mod 256)]"

text \<open>
  The block that \<open>NewGenesisBlock\<close> hands to the consensus algorithm when the clock reads
  \<open>now\<close>: payload \<open>"Genesis Block"\<close>, no previous hash, hash and validator identifier
  still empty.
\<close>

definition genesis_at :: "int64 \<Rightarrow> Block" where
  "genesis_at now =
     \<lparr>Timestamp = now, Data = bytes_of_string ''Genesis Block'', PrevBlockHash = [],
      Hash = [], ValidatorID = []\<rparr>"

text \<open>
  The cumulative stake of the first \<open>k\<close> validators of a registry, as the \<open>uint64\<close>
  the code accumulates (additions wrap modulo \<open>2 ^ 64\<close>). For \<open>k\<close> the length of the
  registry it is the total stake.
\<close>

definition cumulativeStake :: "Validator list \<Rightarrow> nat \<Rightarrow> uint64" where
  "cumulativeStake vs k = sum_list (map Stake (take k vs))"

text \<open>
  The same sum over the natural numbers, without wrap-around: the cumulative stake as
  the plain sum of the stakes of the first \<open>k\<close> validators.
\<close>

definition plainStake :: "Validator list \<Rightarrow> nat \<Rightarrow> nat" where
  "plainStake vs k = sum_list (map (\<lambda>v. unat (Stake v)) (take k vs))"

section \<open>The hash function on known inputs\<close>

text \<open>The test vector of FIPS 180-4 for the message \<open>"abc"\<close>.\<close>

lemma Sum256_abc:
  "Sum256 (bytes_of_string ''abc'') =
     [0xba, 0x78, 0x16, 0xbf, 0x8f, 0x01, 0xcf, 0xea, 0x41, 0x41, 0x40, 0xde, 0x5d, 0xae, 0x22, 0x23,
      0xb0, 0x03, 0x61, 0xa3, 0x96, 0x17, 0x7a, 0x9c, 0xb4, 0x10, 0xff, 0x61, 0xf2, 0x00, 0x15, 0xad]"
  by code_simp

text \<open>A message of 56 bytes, which takes two blocks.\<close>

lemma Sum256_two_blocks:
  "Sum256 (bytes_of_string ''abcdbcdecdefdefgefghfghighijhijkijkljklmklmnlmnomnopnopq'') =
     [36, 141, 106, 97, 210, 6, 56, 184, 229, 192, 38, 147, 12, 62, 96, 57, 163, 60, 228, 89,
      100, 255, 33, 103, 246, 236, 237, 212, 25, 219, 6, 193]"
  by code_simp

text \<open>
  The hashes of the genesis block at some clock readings: for the proof of work with a
  nonce, for the proof of stake with a validator of the registry.
\<close>

lemma Sum256_genesis_1700000000:
  "Sum256 (pow_prepareData (NewProofOfWork (genesis_at 1700000000)) 131228) =
     [0, 0, 18, 182, 211, 58, 121, 76, 96, 235, 101, 159, 79, 90, 205, 18, 132, 178, 120, 59, 74,
      115, 193, 30, 145, 189, 191, 247, 41, 199, 156, 232]"
  by code_simp

lemma Sum256_genesis_1700166994_nonce0:
  "Sum256 (pow_prepareData (NewProofOfWork (genesis_at 1700166994)) 0) =
     [124, 181, 23, 41, 157, 104, 133, 249, 81, 89, 249, 5, 102, 79, 71, 119, 109, 197, 5, 84,
      251, 8, 1, 249, 22, 213, 221, 185, 92, 203, 173, 85]"
  by code_simp

lemma Sum256_genesis_1700166994_nonce1:
  "Sum256 (pow_prepareData (NewProofOfWork (genesis_at 1700166994)) 1) =
     [0, 0, 190, 126, 64, 178, 222, 174, 24, 202, 170, 210, 123, 111, 168, 204, 57, 45, 112,
      147, 192, 1, 162, 224, 165, 233, 125, 126, 0, 35, 192, 4]"
  by code_simp

lemma Sum256_pos_1700000010_validator1:
  "Sum256 (pos_prepareData (NewProofOfStake (genesis_at 1700000010))
          \<lparr>Address = bytes_of_string ''validator1'', Stake = 1000, Balance = 5000\<rparr>) =
     [184, 83, 36, 111, 119, 102, 74, 77, 64, 12, 228, 161, 112, 113, 82, 213, 33, 56, 207, 241,
      197, 219, 248, 5, 199, 125, 157, 55, 76, 246, 67, 97]"
  by code_simp

lemma Sum256_pos_1700000010_validator2:
  "Sum256 (pos_prepareData (NewProofOfStake (genesis_at 1700000010))
          \<lparr>Address = bytes_of_string ''validator2'', Stake = 2000, Balance = 8000\<rparr>) =
     [127, 133, 105, 130, 102, 89, 247, 167, 226, 245, 174, 45, 134, 65, 143, 221, 1, 114, 201,
      27, 208, 125, 101, 231, 173, 186, 174, 225, 55, 221, 165, 240]"
  by code_simp

lemma Sum256_pos_1700000006_validator1:
  "Sum256 (pos_prepareData (NewProofOfStake (genesis_at 1700000006))
          \<lparr>Address = bytes_of_string ''validator1'', Stake = 1000, Balance = 5000\<rparr>) =
     [255, 157, 217, 10, 72, 91, 66, 76, 87, 186, 50, 41, 228, 87, 123, 168, 75, 18, 234, 231,
      191, 231, 94, 18, 134, 185, 85, 18, 195, 74, 17, 180]"
  by code_simp

lemma Sum256_pos_1700000006_validator2:
  "Sum256 (pos_prepareData (NewProofOfStake (genesis_at 1700000006))
          \<lparr>Address = bytes_of_string ''validator2'', Stake = 2000, Balance = 8000\<rparr>) =
     [216, 24, 85, 167, 120, 137, 41, 141, 193, 225, 102, 10, 181, 138, 207, 25, 178, 197, 73,
      229, 10, 5, 111, 32, 4, 141, 164, 28, 216, 109, 21, 122]"
  by code_simp

lemma Sum256_pos_1700000006_validator3:
  "Sum256 (pos_prepareData (NewProofOfStake (genesis_at 1700000006))
          \<lparr>Address = bytes_of_string ''validator3'', Stake = 3000, Balance = 10000\<rparr>) =
     [183, 204, 60, 98, 178, 240, 140, 51, 65, 191, 101, 164, 87, 156, 179, 242, 13, 211, 61,
      195, 181, 129, 246, 52, 189, 55, 132, 215, 254, 27, 125, 222]"
  by code_simp

lemma length_digestBytes: "length (digestBytes d) = 32"
  by (cases d rule: digestBytes.cases) (simp add: BEPutUint32_def)

lemma length_Sum256: "length (Sum256 data) = 32"
  by (simp add: Sum256_def length_digestBytes)

section \<open>Encoding and decoding\<close>

text \<open>
  \<open>binary.BigEndian.Uint64\<close> reads back what \<open>IntToHex\<close> has written: the nonce survives
  the way from \<open>Run\<close> through \<open>ValidatorID\<close> to \<open>Validate\<close>.
\<close>

lemma low_byte_split:
  "(ucast (ucast x :: byte) :: 64 word) OR push_bit 8 (drop_bit 8 x) = x"
proof (rule bit_word_eqI)
  fix n
  assume n: "n < LENGTH(64)"
  show "bit ((ucast (ucast x :: byte) :: 64 word) OR push_bit 8 (drop_bit 8 x)) n = bit x n"
  proof (cases "n < 8")
    case True
    then show ?thesis by (simp add: bit_simps)
  next
    case False
    then have "8 + (n - 8) = n" by simp
    with False n show ?thesis by (simp add: bit_simps)
  qed
qed

lemma byte_split:
  "push_bit k (ucast (ucast (drop_bit k w) :: byte) :: 64 word) OR push_bit (k + 8) (drop_bit (k + 8) w)
     = push_bit k (drop_bit k w)"
proof -
  have "push_bit k ((ucast (ucast (drop_bit k w) :: byte) :: 64 word) OR push_bit 8 (drop_bit 8 (drop_bit k w)))
          = push_bit k (drop_bit k w)"
    by (simp only: low_byte_split)
  then show ?thesis
    by (simp add: add.commute)
qed

lemma top_byte: "push_bit 56 (ucast (ucast (drop_bit 56 w) :: byte) :: 64 word) = push_bit 56 (drop_bit 56 (w :: 64 word))"
  using byte_split [of 56 w] by simp

lemma bytes_to_word:
  "ucast (ucast w :: byte) OR push_bit 8 (ucast (ucast (drop_bit 8 w) :: byte)) OR
   push_bit 16 (ucast (ucast (drop_bit 16 w) :: byte)) OR
   push_bit 24 (ucast (ucast (drop_bit 24 w) :: byte)) OR
   push_bit 32 (ucast (ucast (drop_bit 32 w) :: byte)) OR
   push_bit 40 (ucast (ucast (drop_bit 40 w) :: byte)) OR
   push_bit 48 (ucast (ucast (drop_bit 48 w) :: byte)) OR
   push_bit 56 (ucast (ucast (drop_bit 56 w) :: byte)) = (w :: 64 word)"
  using byte_split [of 0 w] byte_split [of 8 w] byte_split [of 16 w] byte_split [of 24 w]
    byte_split [of 32 w] byte_split [of 40 w] byte_split [of 48 w] top_byte [of w]
  by simp

lemma BigEndian_Uint64_IntToHex: "BigEndian_Uint64 (IntToHex w @ rest) = Inr w"
  by (simp add: IntToHex_def bytes_to_word)

text \<open>
  \<open>IntToHex\<close> is the 8-byte big-endian representation of the unsigned value of its
  argument, and \<open>SetBytes\<close> reads a big-endian representation back.
\<close>

lemma ucast_drop_bit_byte:
  "(ucast (drop_bit k (w :: 64 word)) :: byte) = of_nat (unat w div 2 ^ k mod 256)"
proof -
  have "unat (drop_bit k w) = unat w div 2 ^ k"
    unfolding unat_drop_bit_eq by (simp add: drop_bit_eq_div)
  then have "unat (ucast (drop_bit k w) :: byte) = unat w div 2 ^ k mod 256"
    by (simp add: unsigned_ucast_eq take_bit_eq_mod)
  then show ?thesis
    by (intro word_unat_eq_iff [THEN iffD2]) (simp add: unat_of_nat)
qed

lemma big_endian_8:
  "big_endian 8 n =
     [of_nat (n div 2 ^ 56 mod 256), of_nat (n div 2 ^ 48 mod 256), of_nat (n div 2 ^ 40 mod 256),
      of_nat (n div 2 ^ 32 mod 256), of_nat (n div 2 ^ 24 mod 256), of_nat (n div 2 ^ 16 mod 256),
      of_nat (n div 2 ^ 8 mod 256), of_nat (n mod 256)]"
proof -
  have "(8 :: nat) = Suc (Suc (Suc (Suc (Suc (Suc (Suc (Suc 0)))))))"
    by simp
  then show ?thesis
    by (simp only: big_endian.simps append.simps div_mult2_eq [symmetric]) simp
qed

lemma IntToHex_big_endian: "IntToHex w = big_endian 8 (unat w)"
  using ucast_drop_bit_byte [of 0 w]
  by (simp add: IntToHex_def big_endian_8 ucast_drop_bit_byte)

lemma SetBytes_snoc: "SetBytes (xs @ [b]) = SetBytes xs * 256 + uint b"
  by (simp add: SetBytes_def)

lemma SetBytes_big_endian: "SetBytes (big_endian k n) = int (n mod 256 ^ k)"
proof (induction k arbitrary: n)
  case 0
  then show ?case by (simp add: SetBytes_def)
next
  case (Suc k)
  have "uint (of_nat (n mod 256) :: byte) = int (n mod 256)"
    by (simp add: uint_nat unat_of_nat)
  then have "SetBytes (big_endian (Suc k) n) = int (n div 256 mod 256 ^ k) * 256 + int (n mod 256)"
    by (simp add: SetBytes_snoc Suc.IH)
  moreover have "n mod 256 ^ Suc k = 256 * (n div 256 mod 256 ^ k) + n mod 256"
    by (simp add: mod_mult2_eq)
  ultimately show ?case
    by simp
qed

text \<open>The loop of \<open>Run\<close>: where it stops and what it returns.\<close>

lemma Cmp_less: "(Cmp x y = - 1) = (x < y)"
  by (simp add: Cmp_def)

declare mine.simps [simp del]

lemma mine_found:
  assumes "nonce \<le> n" and "n < MaxInt64"
    and "SetBytes (Sum256 (pow_prepareData pow n)) < pow_target pow"
    and "\<forall>m. nonce \<le> m \<and> m < n \<longrightarrow> \<not> SetBytes (Sum256 (pow_prepareData pow m)) < pow_target pow"
  shows "mine pow nonce hash = (n, Sum256 (pow_prepareData pow n))"
  using assms
proof (induction pow nonce hash rule: mine.induct)
  case (1 pow nonce hash)
  show ?case
  proof (cases "nonce = n")
    case True
    with "1.prems" show ?thesis
      by (subst mine.simps) (simp add: Cmp_less)
  next
    case False
    with "1.prems" have lt: "nonce < n" and lose: "\<not> SetBytes (Sum256 (pow_prepareData pow nonce)) < pow_target pow"
      by auto
    from lt "1.prems" have bound: "nonce < MaxInt64" by simp
    have "mine pow (nonce + 1) (Sum256 (pow_prepareData pow nonce)) = (n, Sum256 (pow_prepareData pow n))"
      using "1.IH" [OF bound refl refl refl] lose lt "1.prems" by (simp add: Cmp_less)
    with bound lose show ?thesis
      by (subst mine.simps) (simp add: Cmp_less)
  qed
qed

lemma mine_exhausted:
  assumes "nonce \<le> MaxInt64"
    and "\<forall>m. nonce \<le> m \<and> m < MaxInt64 \<longrightarrow> \<not> SetBytes (Sum256 (pow_prepareData pow m)) < pow_target pow"
  shows "mine pow nonce hash =
           (MaxInt64, if nonce < MaxInt64 then Sum256 (pow_prepareData pow (MaxInt64 - 1)) else hash)"
  using assms
proof (induction pow nonce hash rule: mine.induct)
  case (1 pow nonce hash)
  show ?case
  proof (cases "nonce < MaxInt64")
    case False
    with "1.prems" show ?thesis
      by (subst mine.simps) simp
  next
    case True
    with "1.prems" have lose: "\<not> SetBytes (Sum256 (pow_prepareData pow nonce)) < pow_target pow"
      by auto
    have "mine pow (nonce + 1) (Sum256 (pow_prepareData pow nonce)) =
            (MaxInt64, if nonce + 1 < MaxInt64 then Sum256 (pow_prepareData pow (MaxInt64 - 1))
                       else Sum256 (pow_prepareData pow nonce))"
      using "1.IH" [OF True refl refl refl] lose True "1.prems" by (simp add: Cmp_less)
    moreover have "nonce = MaxInt64 - 1" if "\<not> nonce + 1 < MaxInt64"
      using that True by simp
    ultimately have "mine pow (nonce + 1) (Sum256 (pow_prepareData pow nonce)) =
            (MaxInt64, Sum256 (pow_prepareData pow (MaxInt64 - 1)))"
      by (cases "nonce + 1 < MaxInt64") simp_all
    with True lose show ?thesis
      by (subst mine.simps) (simp add: Cmp_less)
  qed
qed

lemma least_winning_nonce:
  assumes "0 \<le> n" and "P n"
  obtains n0 :: int where "0 \<le> n0" and "n0 \<le> n" and "P n0" and "\<forall>m. 0 \<le> m \<and> m < n0 \<longrightarrow> \<not> P m"
proof -
  define Q where "Q i = P (int i)" for i
  define i0 where "i0 = (LEAST i. Q i)"
  have Qn: "Q (nat n)" using assms by (simp add: Q_def)
  have 1: "Q i0" unfolding i0_def using Qn by (rule LeastI)
  have 2: "i0 \<le> nat n" unfolding i0_def using Qn by (rule Least_le)
  have 3: "\<not> P m" if "0 \<le> m" "m < int i0" for m
  proof -
    from that have "nat m < i0" by simp
    then have "\<not> Q (nat m)" unfolding i0_def by (rule not_less_Least)
    with that show ?thesis by (simp add: Q_def)
  qed
  show ?thesis
  proof (rule that [of "int i0"])
    show "0 \<le> int i0" by simp
    show "int i0 \<le> n" using 2 assms(1) by simp
    show "P (int i0)" using 1 by (simp add: Q_def)
    show "\<forall>m. 0 \<le> m \<and> m < int i0 \<longrightarrow> \<not> P m" using 3 by blast
  qed
qed

section \<open>Proof of work: mining and validation\<close>

lemma pow_target_NewProofOfWork: "pow_target (NewProofOfWork b) = 2 ^ 240"
  by (simp add: NewProofOfWork_def Lsh_def targetBits_def)

lemma pow_block_NewProofOfWork: "pow_block (NewProofOfWork b) = b"
  by (simp add: NewProofOfWork_def)

lemma pow_prepareData_concat:
  "pow_prepareData pow nonce =
     PrevBlockHash (pow_block pow) @ Data (pow_block pow) @ IntToHex (Timestamp (pow_block pow)) @
     IntToHex (word_of_int targetBits) @ IntToHex (word_of_int nonce)"
  by (simp add: pow_prepareData_def)

lemma pos_prepareData_concat:
  "pos_prepareData pos v =
     PrevBlockHash (pos_block pos) @ Data (pos_block pos) @ IntToHex (Timestamp (pos_block pos)) @
     Address v @ IntToHex (Stake v)"
  by (simp add: pos_prepareData_def)

lemma pow_prepareData_mined:
  "pow_prepareData (NewProofOfWork (b\<lparr>ValidatorID := vid, Hash := h\<rparr>)) nonce =
     pow_prepareData (NewProofOfWork b) nonce"
  by (simp add: pow_prepareData_concat pow_block_NewProofOfWork)

lemma unat_nonce: "0 \<le> n \<Longrightarrow> n \<le> MaxInt64 \<Longrightarrow> unat (word_of_int n :: 64 word) = nat n"
  by (simp add: unsigned_of_int take_bit_int_eq_self MaxInt64_def)

lemma sint_nonce: "0 \<le> n \<Longrightarrow> n \<le> MaxInt64 \<Longrightarrow> sint (word_of_int n :: 64 word) = n"
  by (simp add: sint_sbintrunc' signed_take_bit_int_eq_self MaxInt64_def)

lemma pow_Run_found:
  assumes "0 \<le> n" and "n < MaxInt64"
    and "SetBytes (Sum256 (pow_prepareData pow n)) < pow_target pow"
    and "\<forall>m. 0 \<le> m \<and> m < n \<longrightarrow> \<not> SetBytes (Sum256 (pow_prepareData pow m)) < pow_target pow"
  shows "pow_Run pow = (IntToHex (word_of_int n), Sum256 (pow_prepareData pow n))"
  using mine_found [OF assms(1) assms(2) assms(3) assms(4)]
  by (simp add: pow_Run_def)

lemma pow_Validate_nonce:
  assumes "0 \<le> n" and "n \<le> MaxInt64" and "ValidatorID (pow_block pow) = IntToHex (word_of_int n)"
  shows "pow_Validate pow = Inr (SetBytes (Sum256 (pow_prepareData pow n)) < pow_target pow)"
  using BigEndian_Uint64_IntToHex [of "word_of_int n" "[]"] assms
  by (simp add: pow_Validate_def sint_nonce Cmp_less)

text \<open>
  Claim C5. \<open>NewProofOfWork\<close> sets the target to \<open>2 ^ (256 - 16)\<close>. \<open>Run\<close> scans the
  nonces 0, 1, 2, ... and compares each hash, read as an unsigned big-endian integer,
  with the target: when \<open>n\<close> is the least nonce whose hash is strictly below the target
  (and \<open>n\<close> is below the loop bound \<open>MaxInt64\<close>), \<open>Run\<close> returns the 8-byte big-endian
  representation of \<open>n\<close> together with the hash of \<open>n\<close>.
\<close>

theorem pow_Run_least_nonce:
  assumes "0 \<le> n" and "n < MaxInt64"
    and "SetBytes (Sum256 (pow_prepareData (NewProofOfWork b) n)) < 2 ^ (256 - 16)"
    and "\<forall>m. 0 \<le> m \<and> m < n \<longrightarrow>
           \<not> SetBytes (Sum256 (pow_prepareData (NewProofOfWork b) m)) < 2 ^ (256 - 16)"
  shows "pow_target (NewProofOfWork b) = 2 ^ (256 - 16) \<and>
         pow_Run (NewProofOfWork b) =
           (big_endian 8 (nat n), Sum256 (pow_prepareData (NewProofOfWork b) n))"
proof -
  have "pow_Run (NewProofOfWork b) =
          (IntToHex (word_of_int n), Sum256 (pow_prepareData (NewProofOfWork b) n))"
    using assms by (intro pow_Run_found) (simp_all add: pow_target_NewProofOfWork)
  moreover have "IntToHex (word_of_int n) = big_endian 8 (nat n)"
    using assms(1,2) by (simp add: IntToHex_big_endian unat_nonce)
  ultimately show ?thesis
    by (simp add: pow_target_NewProofOfWork)
qed

text \<open>
  When no nonce below the bound has a hash below the target, the loop ends with
  \<open>nonce = MaxInt64\<close> and \<open>Run\<close> returns that nonce with the last hash it computed, the
  hash of \<open>MaxInt64 - 1\<close>.
\<close>

lemma pow_Run_exhausted:
  assumes "\<forall>m. 0 \<le> m \<and> m < MaxInt64 \<longrightarrow> \<not> SetBytes (Sum256 (pow_prepareData pow m)) < pow_target pow"
  shows "pow_Run pow = (IntToHex (word_of_int MaxInt64), Sum256 (pow_prepareData pow (MaxInt64 - 1)))"
proof -
  have "mine pow 0 (replicate 32 0) =
          (MaxInt64, if 0 < MaxInt64 then Sum256 (pow_prepareData pow (MaxInt64 - 1)) else replicate 32 0)"
    using assms by (intro mine_exhausted) (simp_all add: MaxInt64_def)
  then show ?thesis
    by (simp add: pow_Run_def MaxInt64_def)
qed

text \<open>
  \<open>Validate\<close> on the block completed from the pair of \<open>Run\<close>: it is true exactly when
  some nonce from 0 up to \<open>MaxInt64\<close> has a hash below the target.
\<close>

lemma pow_Validate_after_Run:
  "pow_Validate
     (NewProofOfWork
        (b\<lparr>ValidatorID := fst (pow_Run (NewProofOfWork b)),
           Hash := snd (pow_Run (NewProofOfWork b))\<rparr>)) =
   Inr (\<exists>n. 0 \<le> n \<and> n \<le> MaxInt64 \<and>
          SetBytes (Sum256 (pow_prepareData (NewProofOfWork b) n)) < pow_target (NewProofOfWork b))"
proof -
  let ?pow = "NewProofOfWork b"
  let ?wins = "\<lambda>m. SetBytes (Sum256 (pow_prepareData ?pow m)) < pow_target ?pow"
  let ?b' = "b\<lparr>ValidatorID := fst (pow_Run ?pow), Hash := snd (pow_Run ?pow)\<rparr>"
  show ?thesis
  proof (cases "\<exists>n. 0 \<le> n \<and> n < MaxInt64 \<and> ?wins n")
    case True
    then obtain n where n: "0 \<le> n" "n < MaxInt64" "?wins n" by blast
    obtain n0 where n0: "0 \<le> n0" "n0 \<le> n" "?wins n0" "\<forall>m. 0 \<le> m \<and> m < n0 \<longrightarrow> \<not> ?wins m"
      using least_winning_nonce [of n ?wins] n(1,3) by blast
    from n0(2) n(2) have bound: "n0 < MaxInt64" by simp
    have run: "pow_Run ?pow = (IntToHex (word_of_int n0), Sum256 (pow_prepareData ?pow n0))"
      using n0(1) bound n0(3) n0(4) by (rule pow_Run_found)
    have "pow_Validate (NewProofOfWork ?b') =
            Inr (SetBytes (Sum256 (pow_prepareData (NewProofOfWork ?b') n0)) < pow_target (NewProofOfWork ?b'))"
      using n0(1) bound by (intro pow_Validate_nonce) (simp_all add: run pow_block_NewProofOfWork)
    with n0(3) have "pow_Validate (NewProofOfWork ?b') = Inr True"
      by (simp add: pow_prepareData_mined pow_target_NewProofOfWork)
    moreover have "\<exists>n. 0 \<le> n \<and> n \<le> MaxInt64 \<and> ?wins n"
      using n by (intro exI [of _ n]) simp
    ultimately show ?thesis by simp
  next
    case False
    then have none: "\<forall>m. 0 \<le> m \<and> m < MaxInt64 \<longrightarrow> \<not> ?wins m" by blast
    have run: "pow_Run ?pow = (IntToHex (word_of_int MaxInt64), Sum256 (pow_prepareData ?pow (MaxInt64 - 1)))"
      using none by (rule pow_Run_exhausted)
    have "pow_Validate (NewProofOfWork ?b') =
            Inr (SetBytes (Sum256 (pow_prepareData (NewProofOfWork ?b') MaxInt64)) < pow_target (NewProofOfWork ?b'))"
      by (intro pow_Validate_nonce) (simp_all add: run pow_block_NewProofOfWork MaxInt64_def)
    then have "pow_Validate (NewProofOfWork ?b') = Inr (?wins MaxInt64)"
      by (simp add: pow_prepareData_mined pow_target_NewProofOfWork)
    moreover have "(\<exists>n. 0 \<le> n \<and> n \<le> MaxInt64 \<and> ?wins n) = ?wins MaxInt64"
    proof
      assume "\<exists>n. 0 \<le> n \<and> n \<le> MaxInt64 \<and> ?wins n"
      then obtain n where n: "0 \<le> n" "n \<le> MaxInt64" "?wins n" by blast
      with none have "\<not> n < MaxInt64" by blast
      with n(2) have "n = MaxInt64" by simp
      with n(3) show "?wins MaxInt64" by simp
    next
      assume "?wins MaxInt64"
      then show "\<exists>n. 0 \<le> n \<and> n \<le> MaxInt64 \<and> ?wins n"
        by (intro exI [of _ MaxInt64]) (simp add: MaxInt64_def)
    qed
    ultimately show ?thesis by simp
  qed
qed

text \<open>
  The agreement of \<open>Run\<close> and \<open>Validate\<close> when the search succeeds. Take any block and
  set its \<open>ValidatorID\<close> and \<open>Hash\<close> from the pair that \<open>Run\<close> returns on it. If some
  nonce below the loop bound \<open>MaxInt64\<close> has a hash strictly below the target, then
  \<open>Validate\<close> on the resulting block returns true and the hash that \<open>Run\<close> returned is
  strictly below the target. Whether every block has such a nonce is a question about
  SHA-256 that the code does not decide; by \<open>pow_Validate_after_Run\<close> it is exactly what
  the unconditional statement would need.
\<close>

lemma pow_Run_then_Validate:
  assumes "0 \<le> n" and "n < MaxInt64"
    and "SetBytes (Sum256 (pow_prepareData (NewProofOfWork b) n)) < pow_target (NewProofOfWork b)"
  shows "pow_Validate
           (NewProofOfWork
              (b\<lparr>ValidatorID := fst (pow_Run (NewProofOfWork b)),
                 Hash := snd (pow_Run (NewProofOfWork b))\<rparr>)) = Inr True \<and>
         SetBytes (snd (pow_Run (NewProofOfWork b))) < pow_target (NewProofOfWork b)"
proof -
  let ?pow = "NewProofOfWork b"
  let ?wins = "\<lambda>m. SetBytes (Sum256 (pow_prepareData ?pow m)) < pow_target ?pow"
  obtain n0 where n0: "0 \<le> n0" "n0 \<le> n" "?wins n0" "\<forall>m. 0 \<le> m \<and> m < n0 \<longrightarrow> \<not> ?wins m"
    using least_winning_nonce [of n ?wins] assms(1,3) by blast
  from n0(2) assms(2) have bound: "n0 < MaxInt64" by simp
  have run: "pow_Run ?pow = (IntToHex (word_of_int n0), Sum256 (pow_prepareData ?pow n0))"
    using n0(1) bound n0(3) n0(4) by (rule pow_Run_found)
  have "\<exists>m. 0 \<le> m \<and> m \<le> MaxInt64 \<and> ?wins m"
    using assms by (intro exI [of _ n]) simp
  then have "pow_Validate
           (NewProofOfWork
              (b\<lparr>ValidatorID := fst (pow_Run ?pow), Hash := snd (pow_Run ?pow)\<rparr>)) = Inr True"
    by (simp only: pow_Validate_after_Run)
  with n0(3) show ?thesis
    by (simp add: run)
qed

lemma pow_Run_then_Validate_genesis:
  "pow_Validate
     (NewProofOfWork
        ((genesis_at 1700000000)
           \<lparr>ValidatorID := fst (pow_Run (NewProofOfWork (genesis_at 1700000000))),
            Hash := snd (pow_Run (NewProofOfWork (genesis_at 1700000000)))\<rparr>)) = Inr True \<and>
   SetBytes (snd (pow_Run (NewProofOfWork (genesis_at 1700000000))))
     < pow_target (NewProofOfWork (genesis_at 1700000000))"
proof -
  have "SetBytes (Sum256 (pow_prepareData (NewProofOfWork (genesis_at 1700000000)) 131228))
          < pow_target (NewProofOfWork (genesis_at 1700000000))"
    by (simp add: Sum256_genesis_1700000000 SetBytes_def pow_target_NewProofOfWork)
  then show ?thesis
    by (intro pow_Run_then_Validate [of 131228]) (simp_all add: MaxInt64_def)
qed

theorem pow_Run_least_nonce_witness:
  "\<not> SetBytes (Sum256 (pow_prepareData (NewProofOfWork (genesis_at 1700166994)) 0))
       < 2 ^ (256 - 16) \<and>
   pow_Run (NewProofOfWork (genesis_at 1700166994)) =
     ([0, 0, 0, 0, 0, 0, 0, 1],
      [0, 0, 190, 126, 64, 178, 222, 174, 24, 202, 170, 210, 123, 111, 168, 204, 57, 45, 112,
       147, 192, 1, 162, 224, 165, 233, 125, 126, 0, 35, 192, 4])"
proof -
  let ?pow = "NewProofOfWork (genesis_at 1700166994)"
  have lose: "\<not> SetBytes (Sum256 (pow_prepareData ?pow 0)) < 2 ^ (256 - 16)"
    by (simp add: Sum256_genesis_1700166994_nonce0 SetBytes_def)
  have win: "SetBytes (Sum256 (pow_prepareData ?pow 1)) < 2 ^ (256 - 16)"
    by (simp add: Sum256_genesis_1700166994_nonce1 SetBytes_def)
  have least: "\<forall>m. 0 \<le> m \<and> m < 1 \<longrightarrow> \<not> SetBytes (Sum256 (pow_prepareData ?pow m)) < 2 ^ (256 - 16)"
  proof (intro allI impI)
    fix m :: int
    assume "0 \<le> m \<and> m < 1"
    then have "m = 0" by simp
    with lose show "\<not> SetBytes (Sum256 (pow_prepareData ?pow m)) < 2 ^ (256 - 16)" by simp
  qed
  have "(0 :: int) \<le> 1" and "(1 :: int) < MaxInt64"
    by (simp_all add: MaxInt64_def)
  from pow_Run_least_nonce [OF this win least] lose show ?thesis
    by (simp add: Sum256_genesis_1700166994_nonce1 big_endian_8)
qed

section \<open>Serialization and determinism of the hash\<close>

text \<open>With the empty separator, \<open>bytes.Join\<close> is plain concatenation.\<close>

lemma bytes_Join_empty_sep: "bytes_Join xs [] = concat xs"
  by (induction xs "[] :: byte list" rule: bytes_Join.induct) simp_all

lemma unat_targetBits: "unat (word_of_int targetBits :: 64 word) = 16"
  by (simp add: targetBits_def)

text \<open>
  Claim C8. The bytes that are hashed are the concatenation, in this order and with
  nothing in between, of the previous block hash, the payload, the timestamp as 8
  big-endian bytes, and then: for the proof of work the difficulty \<open>targetBits = 16\<close>
  and the nonce, each as 8 big-endian bytes; for the proof of stake the validator's
  address and its stake as 8 big-endian bytes. A signed value (timestamp, nonce) is
  encoded in two's complement, that is, as the unsigned value of its 64 bits.
\<close>

theorem prepareData_layout:
  "pow_prepareData pow nonce =
     PrevBlockHash (pow_block pow) @ Data (pow_block pow) @
     big_endian 8 (unat (Timestamp (pow_block pow))) @
     big_endian 8 16 @ big_endian 8 (unat (word_of_int nonce :: 64 word)) \<and>
   pos_prepareData pos validator =
     PrevBlockHash (pos_block pos) @ Data (pos_block pos) @
     big_endian 8 (unat (Timestamp (pos_block pos))) @
     Address validator @ big_endian 8 (unat (Stake validator))"
proof -
  have "bytes_Join
          [PrevBlockHash (pow_block pow), Data (pow_block pow), IntToHex (Timestamp (pow_block pow)),
           IntToHex (word_of_int targetBits), IntToHex (word_of_int nonce)] [] =
        PrevBlockHash (pow_block pow) @ Data (pow_block pow) @
        IntToHex (Timestamp (pow_block pow)) @
        IntToHex (word_of_int targetBits) @ IntToHex (word_of_int nonce)"
    by simp
  then have pow: "pow_prepareData pow nonce =
        PrevBlockHash (pow_block pow) @ Data (pow_block pow) @
        big_endian 8 (unat (Timestamp (pow_block pow))) @
        big_endian 8 16 @ big_endian 8 (unat (word_of_int nonce :: 64 word))"
    by (simp only: pow_prepareData_def IntToHex_big_endian unat_targetBits)
  have "bytes_Join
          [PrevBlockHash (pos_block pos), Data (pos_block pos), IntToHex (Timestamp (pos_block pos)),
           Address validator, IntToHex (Stake validator)] [] =
        PrevBlockHash (pos_block pos) @ Data (pos_block pos) @
        IntToHex (Timestamp (pos_block pos)) @ Address validator @ IntToHex (Stake validator)"
    by simp
  then have pos: "pos_prepareData pos validator =
        PrevBlockHash (pos_block pos) @ Data (pos_block pos) @
        big_endian 8 (unat (Timestamp (pos_block pos))) @
        Address validator @ big_endian 8 (unat (Stake validator))"
    by (simp only: pos_prepareData_def IntToHex_big_endian)
  from pow pos show ?thesis ..
qed

theorem prepareData_layout_witness:
  "pow_prepareData (NewProofOfWork (genesis_at 1700000000)) 131228 =
     [71, 101, 110, 101, 115, 105, 115, 32, 66, 108, 111, 99, 107] @
     [0, 0, 0, 0, 101, 83, 241, 0] @ [0, 0, 0, 0, 0, 0, 0, 16] @ [0, 0, 0, 0, 0, 2, 0, 156] \<and>
   pos_prepareData (NewProofOfStake (genesis_at 1700000000)) (hd createMockValidators) =
     [71, 101, 110, 101, 115, 105, 115, 32, 66, 108, 111, 99, 107] @
     [0, 0, 0, 0, 101, 83, 241, 0] @
     [118, 97, 108, 105, 100, 97, 116, 111, 114, 49] @ [0, 0, 0, 0, 0, 0, 3, 232]"
  using prepareData_layout
    [of "NewProofOfWork (genesis_at 1700000000)" 131228
        "NewProofOfStake (genesis_at 1700000000)" "hd createMockValidators"]
  by (simp add: big_endian_8 pow_block_NewProofOfWork NewProofOfStake_def genesis_at_def
        createMockValidators_def bytes_of_string_def)

text \<open>
  Claim C9. The hash is a function of the previous block hash, the payload, the
  timestamp and the nonce (proof of work) or the validator's address and stake (proof
  of stake): two computations that agree on these give the same bytes, whatever the
  other fields of the blocks, the target or threshold, and the validator's balance are.
\<close>

theorem hash_deterministic:
  assumes "PrevBlockHash (pow_block pow1) = PrevBlockHash (pow_block pow2)"
    and "Data (pow_block pow1) = Data (pow_block pow2)"
    and "Timestamp (pow_block pow1) = Timestamp (pow_block pow2)"
    and "PrevBlockHash (pos_block pos1) = PrevBlockHash (pos_block pos2)"
    and "Data (pos_block pos1) = Data (pos_block pos2)"
    and "Timestamp (pos_block pos1) = Timestamp (pos_block pos2)"
    and "Address v1 = Address v2" and "Stake v1 = Stake v2"
  shows "Sum256 (pow_prepareData pow1 nonce) = Sum256 (pow_prepareData pow2 nonce) \<and>
         Sum256 (pos_prepareData pos1 v1) = Sum256 (pos_prepareData pos2 v2)"
  using assms by (simp add: pow_prepareData_concat pos_prepareData_concat)

theorem hash_deterministic_witness:
  "Sum256 (pow_prepareData (NewProofOfWork (genesis_at 1700000000)) 131228) =
   Sum256 (pow_prepareData
     (NewProofOfWork ((genesis_at 1700000000)\<lparr>Hash := [1], ValidatorID := [2]\<rparr>)) 131228) \<and>
   Sum256 (pos_prepareData (NewProofOfStake (genesis_at 1700000000))
     \<lparr>Address = bytes_of_string ''validator1'', Stake = 1000, Balance = 5000\<rparr>) =
   Sum256 (pos_prepareData
     (NewProofOfStake ((genesis_at 1700000000)\<lparr>Hash := [1], ValidatorID := [2]\<rparr>))
     \<lparr>Address = bytes_of_string ''validator1'', Stake = 1000, Balance = 0\<rparr>)"
  by (rule hash_deterministic)
    (simp_all add: pow_block_NewProofOfWork NewProofOfStake_def genesis_at_def)

section \<open>Proof of work: decoding the recorded nonce\<close>

lemma BigEndian_Uint64_panics_iff:
  "(BigEndian_Uint64 bs = Inl IndexOutOfRange) = (length bs < 8)"
  by (cases bs rule: BigEndian_Uint64.cases) simp_all

lemma BigEndian_Uint64_cases:
  "(\<exists>u. BigEndian_Uint64 bs = Inr u) \<or> BigEndian_Uint64 bs = Inl IndexOutOfRange"
  by (cases bs rule: BigEndian_Uint64.cases) simp_all

text \<open>
  Claim C10. \<open>Validate\<close> of the proof of work decodes the nonce with
  \<open>binary.BigEndian.Uint64\<close>, which needs eight bytes: it panics (index out of range)
  exactly when \<open>ValidatorID\<close> holds fewer than eight bytes, as the empty \<open>ValidatorID\<close>
  of a block that has not been mined does; with eight bytes or more it returns a boolean.
\<close>

theorem pow_Validate_short_ValidatorID:
  "(length (ValidatorID (pow_block pow)) < 8 \<longrightarrow> pow_Validate pow = Inl IndexOutOfRange) \<and>
   (8 \<le> length (ValidatorID (pow_block pow)) \<longrightarrow> (\<exists>isValid. pow_Validate pow = Inr isValid))"
proof (cases "BigEndian_Uint64 (ValidatorID (pow_block pow))")
  case (Inl e)
  then have "e = IndexOutOfRange"
    using BigEndian_Uint64_cases [of "ValidatorID (pow_block pow)"] by simp
  with Inl show ?thesis
    using BigEndian_Uint64_panics_iff [of "ValidatorID (pow_block pow)"]
    by (simp add: pow_Validate_def)
next
  case (Inr u)
  then show ?thesis
    using BigEndian_Uint64_panics_iff [of "ValidatorID (pow_block pow)"]
    by (simp add: pow_Validate_def)
qed

theorem pow_Validate_short_ValidatorID_witness:
  "pow_Validate (NewProofOfWork (genesis_at 1700000000)) = Inl IndexOutOfRange \<and>
   ValidatorID (genesis_at 1700000000) = [] \<and>
   pow_Validate (NewProofOfWork ((genesis_at 1700000000)\<lparr>ValidatorID := [0, 0, 0, 0, 0, 2, 0]\<rparr>))
     = Inl IndexOutOfRange"
  using pow_Validate_short_ValidatorID [of "NewProofOfWork (genesis_at 1700000000)"]
    pow_Validate_short_ValidatorID
      [of "NewProofOfWork ((genesis_at 1700000000)\<lparr>ValidatorID := [0, 0, 0, 0, 0, 2, 0]\<rparr>)"]
  by (simp add: pow_block_NewProofOfWork genesis_at_def)

section \<open>Proof of stake: selection of the validator\<close>

lemma cumulativeStake_Cons: "cumulativeStake (v # vs) (Suc k) = Stake v + cumulativeStake vs k"
  by (simp add: cumulativeStake_def)

lemma cumulativeStake_all: "cumulativeStake vs (length vs) = sum_list (map Stake vs)"
  by (simp add: cumulativeStake_def)

lemma totalStake_foldl:
  "foldl (\<lambda>totalStake v. totalStake + Stake v) a vs = a + sum_list (map Stake vs)"
  by (induction vs arbitrary: a) (simp_all add: add.assoc)

lemma selectLoop_Some:
  "selectLoop vs s acc = Some v \<Longrightarrow>
     \<exists>i<length vs. v = vs ! i \<and> s \<le> acc + cumulativeStake vs (Suc i) \<and>
       (\<forall>j<i. \<not> s \<le> acc + cumulativeStake vs (Suc j))"
proof (induction vs arbitrary: acc)
  case Nil
  then show ?case by simp
next
  case (Cons w ws)
  show ?case
  proof (cases "s \<le> acc + Stake w")
    case True
    with Cons.prems have "v = w" by simp
    with True show ?thesis
      by (intro exI [of _ 0]) (simp add: cumulativeStake_def)
  next
    case False
    with Cons.prems have "selectLoop ws s (acc + Stake w) = Some v" by simp
    from Cons.IH [OF this] obtain i where i: "i < length ws" "v = ws ! i"
      "s \<le> acc + Stake w + cumulativeStake ws (Suc i)"
      "\<forall>j<i. \<not> s \<le> acc + Stake w + cumulativeStake ws (Suc j)"
      by blast
    have "\<not> s \<le> acc + cumulativeStake (w # ws) (Suc j)" if "j < Suc i" for j
    proof (cases j)
      case 0
      with False show ?thesis by (simp add: cumulativeStake_def)
    next
      case (Suc j')
      with that i(4) show ?thesis by (simp add: cumulativeStake_Cons add.assoc)
    qed
    with i(1,2,3) show ?thesis
      by (intro exI [of _ "Suc i"]) (simp add: cumulativeStake_Cons add.assoc)
  qed
qed

lemma selectLoop_None:
  "selectLoop vs s acc = None \<Longrightarrow> j < length vs \<Longrightarrow> \<not> s \<le> acc + cumulativeStake vs (Suc j)"
proof (induction vs arbitrary: acc j)
  case Nil
  then show ?case by simp
next
  case (Cons w ws)
  from Cons.prems(1) have first: "\<not> s \<le> acc + Stake w"
    by (auto simp: Let_def split: if_splits)
  with Cons.prems(1) have rest: "selectLoop ws s (acc + Stake w) = None" by simp
  show ?case
  proof (cases j)
    case 0
    with first show ?thesis by (simp add: cumulativeStake_def)
  next
    case (Suc j')
    with Cons.prems(2) have "j' < length ws" by simp
    from Cons.IH [OF rest this] Suc show ?thesis
      by (simp add: cumulativeStake_Cons add.assoc)
  qed
qed

lemma selectLoop_total:
  assumes "sum_list (map Stake vs) \<noteq> 0"
  shows "selectLoop vs (rnd mod sum_list (map Stake vs)) 0 \<noteq> None"
proof
  let ?total = "sum_list (map Stake vs)"
  assume none: "selectLoop vs (rnd mod ?total) 0 = None"
  from assms have "vs \<noteq> []" by auto
  then have "length vs - 1 < length vs" by simp
  from selectLoop_None [OF none this] \<open>vs \<noteq> []\<close>
  have "\<not> rnd mod ?total \<le> ?total"
    by (simp add: cumulativeStake_all)
  moreover have "rnd mod ?total < ?total"
    using assms by (simp add: word_mod_less_divisor word_neq_0_conv)
  ultimately show False by simp
qed

lemma unat_sum_list: "unat (sum_list ws :: 64 word) = sum_list (map unat ws) mod 2 ^ 64"
  by (induction ws) (simp_all add: unat_word_ariths mod_add_right_eq)

lemma sum_list_take_le: "sum_list (map f (take k xs)) \<le> (sum_list (map f xs) :: nat)"
proof -
  have "sum_list (map f xs) = sum_list (map f (take k xs)) + sum_list (map f (drop k xs))"
    by (metis append_take_drop_id map_append sum_list_append)
  then show ?thesis by simp
qed

lemma cumulativeStake_no_overflow:
  assumes "sum_list (map (\<lambda>v. unat (Stake v)) vs) < 2 ^ 64"
  shows "unat (cumulativeStake vs k) = sum_list (map (\<lambda>v. unat (Stake v)) (take k vs))"
proof -
  have "sum_list (map (\<lambda>v. unat (Stake v)) (take k vs)) < 2 ^ 64"
    using sum_list_take_le [of "\<lambda>v. unat (Stake v)" k vs] assms by simp
  then show ?thesis
    by (simp add: cumulativeStake_def unat_sum_list comp_def)
qed

text \<open>
  In the \<open>uint64\<close> arithmetic of the code: on a registry whose wrapped total stake is
  not zero, \<open>selectValidator\<close> returns the first validator whose wrapped cumulative
  stake is at least the draw \<open>rnd mod totalStake\<close>, the loop always returns, and a
  registry of one validator yields that validator.
\<close>

lemma selectValidator_first_wrapping:
  assumes "cumulativeStake (pos_validators pos) (length (pos_validators pos)) \<noteq> 0"
  shows "\<exists>i<length (pos_validators pos).
           selectValidator pos rnd = Inr (pos_validators pos ! i) \<and>
           rnd mod cumulativeStake (pos_validators pos) (length (pos_validators pos))
             \<le> cumulativeStake (pos_validators pos) (Suc i) \<and>
           (\<forall>j<i. \<not> rnd mod cumulativeStake (pos_validators pos) (length (pos_validators pos))
                      \<le> cumulativeStake (pos_validators pos) (Suc j)) \<and>
           selectLoop (pos_validators pos)
             (rnd mod cumulativeStake (pos_validators pos) (length (pos_validators pos))) 0 \<noteq> None \<and>
           (length (pos_validators pos) = 1 \<longrightarrow>
              selectValidator pos rnd = Inr (hd (pos_validators pos)))"
proof -
  let ?vs = "pos_validators pos"
  let ?total = "sum_list (map Stake ?vs)"
  from assms have total: "?total \<noteq> 0" by (simp add: cumulativeStake_all)
  then obtain v where v: "selectLoop ?vs (rnd mod ?total) 0 = Some v"
    using selectLoop_total [of ?vs rnd] by auto
  from selectLoop_Some [OF this] obtain i where i: "i < length ?vs" "v = ?vs ! i"
    "rnd mod ?total \<le> cumulativeStake ?vs (Suc i)"
    "\<forall>j<i. \<not> rnd mod ?total \<le> cumulativeStake ?vs (Suc j)"
    by auto
  have sel: "selectValidator pos rnd = Inr (?vs ! i)"
    using total v i(2) by (simp add: selectValidator_def totalStake_foldl)
  have "selectValidator pos rnd = Inr (hd ?vs)" if "length ?vs = 1"
  proof -
    from that i(1) have "i = 0" by simp
    moreover from that have "?vs \<noteq> []" by auto
    ultimately show ?thesis using sel by (simp add: hd_conv_nth)
  qed
  with i sel v show ?thesis
    by (intro exI [of _ i]) (simp add: cumulativeStake_all)
qed

text \<open>
  Claim C6 as stated fails where the stakes add up to \<open>2 ^ 64\<close> or more. Two validators
  of stake \<open>2 ^ 63\<close> have a positive total stake, yet the total of the code wraps to 0
  and \<open>selectValidator\<close> panics. With stakes 1, \<open>2 ^ 64 - 1\<close> and 10 and the draw 5, the
  cumulative stake of the second validator already exceeds the draw, yet the code
  returns the third.
\<close>

theorem selectValidator_first_cumulative_counterexample:
  "plainStake
     [\<lparr>Address = bytes_of_string ''validator1'', Stake = 9223372036854775808, Balance = 0\<rparr>,
      \<lparr>Address = bytes_of_string ''validator2'', Stake = 9223372036854775808, Balance = 0\<rparr>] 2
     = 18446744073709551616 \<and>
   selectValidator
     \<lparr>pos_block = genesis_at 1700000006,
      pos_validators =
        [\<lparr>Address = bytes_of_string ''validator1'', Stake = 9223372036854775808, Balance = 0\<rparr>,
         \<lparr>Address = bytes_of_string ''validator2'', Stake = 9223372036854775808, Balance = 0\<rparr>],
      pos_threshold = 2 ^ 255\<rparr> 5 = Inl IntegerDivideByZero \<and>
   5 \<le> plainStake
     [\<lparr>Address = bytes_of_string ''validator1'', Stake = 1, Balance = 0\<rparr>,
      \<lparr>Address = bytes_of_string ''validator2'', Stake = 18446744073709551615, Balance = 0\<rparr>,
      \<lparr>Address = bytes_of_string ''validator3'', Stake = 10, Balance = 0\<rparr>] 2 \<and>
   selectValidator
     \<lparr>pos_block = genesis_at 1700000006,
      pos_validators =
        [\<lparr>Address = bytes_of_string ''validator1'', Stake = 1, Balance = 0\<rparr>,
         \<lparr>Address = bytes_of_string ''validator2'', Stake = 18446744073709551615, Balance = 0\<rparr>,
         \<lparr>Address = bytes_of_string ''validator3'', Stake = 10, Balance = 0\<rparr>],
      pos_threshold = 2 ^ 255\<rparr> 5 =
     Inr \<lparr>Address = bytes_of_string ''validator3'', Stake = 10, Balance = 0\<rparr>"
  by (simp add: plainStake_def selectValidator_def word_le_nat_alt)

lemma plainStake_unat:
  assumes "plainStake vs (length vs) < 2 ^ 64"
  shows "unat (cumulativeStake vs k) = plainStake vs k"
  using cumulativeStake_no_overflow [of vs k] assms by (simp add: plainStake_def)

text \<open>
  Claim C6, as the code has it. On a registry whose stakes add up to a positive total
  below \<open>2 ^ 64\<close>, and for every value \<open>rnd\<close> of the random source, the draw
  \<open>rnd mod totalStake\<close> lies in \<open>[0, totalStake)\<close> and \<open>selectValidator\<close> returns the
  first validator, in registry order, whose cumulative stake (the plain sum) is at least
  the draw. The loop always returns, so the fallback to the first entry is not reached,
  and a registry of one validator yields that validator for every draw.
\<close>

theorem selectValidator_first_plain:
  assumes "0 < plainStake (pos_validators pos) (length (pos_validators pos))"
    and "plainStake (pos_validators pos) (length (pos_validators pos)) < 2 ^ 64"
  shows "\<exists>i<length (pos_validators pos).
           selectValidator pos rnd = Inr (pos_validators pos ! i) \<and>
           unat rnd mod plainStake (pos_validators pos) (length (pos_validators pos))
             \<le> plainStake (pos_validators pos) (Suc i) \<and>
           (\<forall>j<i. \<not> unat rnd mod plainStake (pos_validators pos) (length (pos_validators pos))
                      \<le> plainStake (pos_validators pos) (Suc j)) \<and>
           selectLoop (pos_validators pos)
             (of_nat (unat rnd mod plainStake (pos_validators pos) (length (pos_validators pos)))) 0
             \<noteq> None \<and>
           (length (pos_validators pos) = 1 \<longrightarrow>
              selectValidator pos rnd = Inr (hd (pos_validators pos)))"
proof -
  let ?vs = "pos_validators pos"
  let ?total = "cumulativeStake ?vs (length ?vs)"
  have cum: "unat (cumulativeStake ?vs k) = plainStake ?vs k" for k
    using assms(2) by (rule plainStake_unat)
  from assms(1) have "unat ?total \<noteq> 0" by (simp add: cum)
  then have total: "?total \<noteq> 0" by auto
  have draw: "unat (rnd mod ?total) = unat rnd mod plainStake ?vs (length ?vs)"
    by (simp add: unat_mod cum)
  then have conv: "of_nat (unat rnd mod plainStake ?vs (length ?vs)) = rnd mod ?total"
    by (metis of_nat_unat ucast_id)
  from selectValidator_first_wrapping [OF total, of rnd]
  obtain i where i: "i < length ?vs" "selectValidator pos rnd = Inr (?vs ! i)"
    "rnd mod ?total \<le> cumulativeStake ?vs (Suc i)"
    "\<forall>j<i. \<not> rnd mod ?total \<le> cumulativeStake ?vs (Suc j)"
    "selectLoop ?vs (rnd mod ?total) 0 \<noteq> None"
    "length ?vs = 1 \<longrightarrow> selectValidator pos rnd = Inr (hd ?vs)"
    by blast
  from i(3) have 3: "unat rnd mod plainStake ?vs (length ?vs) \<le> plainStake ?vs (Suc i)"
    by (simp add: word_le_nat_alt draw cum)
  from i(4) have 4: "\<forall>j<i. \<not> unat rnd mod plainStake ?vs (length ?vs) \<le> plainStake ?vs (Suc j)"
    by (simp add: word_le_nat_alt draw cum)
  from i(1,2,5,6) 3 4 show ?thesis
    by (intro exI [of _ i]) (simp add: conv)
qed

theorem selectValidator_first_plain_witness:
  "plainStake (pos_validators (NewProofOfStake (genesis_at 1700000006)))
     (length (pos_validators (NewProofOfStake (genesis_at 1700000006)))) = 6000 \<and>
   (\<exists>i<3. selectValidator (NewProofOfStake (genesis_at 1700000006)) 4500 =
             Inr (createMockValidators ! i) \<and>
           4500 \<le> plainStake createMockValidators (Suc i) \<and>
           (\<forall>j<i. \<not> 4500 \<le> plainStake createMockValidators (Suc j))) \<and>
   selectValidator (NewProofOfStake (genesis_at 1700000006)) 4500 =
     Inr \<lparr>Address = bytes_of_string ''validator3'', Stake = 3000, Balance = 10000\<rparr> \<and>
   selectValidator
     \<lparr>pos_block = genesis_at 1700000006,
      pos_validators = [\<lparr>Address = bytes_of_string ''validator1'', Stake = 1000, Balance = 5000\<rparr>],
      pos_threshold = 2 ^ 255\<rparr> 4500 =
     Inr \<lparr>Address = bytes_of_string ''validator1'', Stake = 1000, Balance = 5000\<rparr>"
proof -
  let ?pos = "NewProofOfStake (genesis_at 1700000006)"
  let ?one = "\<lparr>pos_block = genesis_at 1700000006,
      pos_validators = [\<lparr>Address = bytes_of_string ''validator1'', Stake = 1000, Balance = 5000\<rparr>],
      pos_threshold = 2 ^ 255\<rparr>"
  have vs: "pos_validators ?pos = createMockValidators" "length createMockValidators = 3"
    by (simp_all add: NewProofOfStake_def createMockValidators_def)
  have total: "plainStake createMockValidators 3 = 6000"
    by (simp add: plainStake_def createMockValidators_def)
  have draw: "unat (4500 :: uint64) mod 6000 = 4500"
    by simp
  have third: "selectValidator ?pos 4500 =
     Inr \<lparr>Address = bytes_of_string ''validator3'', Stake = 3000, Balance = 10000\<rparr>"
    by (simp add: selectValidator_def NewProofOfStake_def createMockValidators_def)
  have "0 < plainStake (pos_validators ?one) (length (pos_validators ?one))"
    and "plainStake (pos_validators ?one) (length (pos_validators ?one)) < 2 ^ 64"
    by (simp_all add: plainStake_def)
  from selectValidator_first_plain [OF this, of 4500]
  have single: "selectValidator ?one 4500 =
     Inr \<lparr>Address = bytes_of_string ''validator1'', Stake = 1000, Balance = 5000\<rparr>"
    by simp
  have "0 < plainStake (pos_validators ?pos) (length (pos_validators ?pos))"
    and "plainStake (pos_validators ?pos) (length (pos_validators ?pos)) < 2 ^ 64"
    by (simp_all add: vs total)
  from selectValidator_first_plain [OF this, of 4500]
  have first: "\<exists>i<3. selectValidator ?pos 4500 = Inr (createMockValidators ! i) \<and>
           4500 \<le> plainStake createMockValidators (Suc i) \<and>
           (\<forall>j<i. \<not> 4500 \<le> plainStake createMockValidators (Suc j))"
    by (simp add: vs total draw) blast
  have "plainStake (pos_validators ?pos) (length (pos_validators ?pos)) = 6000"
    by (simp add: vs total)
  with first third single show ?thesis
    by blast
qed

text \<open>
  Claim C7 as stated asks for a failure other than the division by zero; on the empty
  registry the code fails with exactly that panic.
\<close>

theorem selectValidator_no_stake_counterexample:
  "selectValidator
     \<lparr>pos_block = genesis_at 1700000006, pos_validators = [], pos_threshold = 2 ^ 255\<rparr> 0 =
     Inl IntegerDivideByZero"
  by (simp add: selectValidator_def)

text \<open>
  Claim C7, as the code has it. On an empty registry or a registry whose total stake is
  zero, \<open>selectValidator\<close> fails, and it fails with the run-time panic of the integer
  division \<open>rand.Uint64() % totalStake\<close>: there is no check of the total before the
  division and no condition of its own for a registry without eligible validators.
  Neither the selection loop nor the fallback is reached.
\<close>

theorem selectValidator_no_stake:
  assumes "cumulativeStake (pos_validators pos) (length (pos_validators pos)) = 0"
  shows "selectValidator pos rnd = Inl IntegerDivideByZero"
  using assms by (simp add: selectValidator_def totalStake_foldl cumulativeStake_all)

theorem selectValidator_no_stake_witness:
  "selectValidator
     \<lparr>pos_block = genesis_at 1700000006, pos_validators = [], pos_threshold = 2 ^ 255\<rparr> 4500 =
     Inl IntegerDivideByZero \<and>
   selectValidator
     \<lparr>pos_block = genesis_at 1700000006,
      pos_validators = [\<lparr>Address = bytes_of_string ''validator1'', Stake = 0, Balance = 5000\<rparr>],
      pos_threshold = 2 ^ 255\<rparr> 4500 =
     Inl IntegerDivideByZero"
  by (intro conjI selectValidator_no_stake) (simp_all add: cumulativeStake_def)

lemma selectValidator_registry:
  "\<exists>v\<in>set createMockValidators. selectValidator (NewProofOfStake b) rnd = Inr v"
proof -
  let ?pos = "NewProofOfStake b"
  have vs: "pos_validators ?pos = createMockValidators"
    by (simp add: NewProofOfStake_def)
  have "sum_list (map Stake createMockValidators) \<noteq> 0"
    by (simp add: createMockValidators_def)
  then obtain v where v: "selectLoop createMockValidators (rnd mod sum_list (map Stake createMockValidators)) 0 = Some v"
    using selectLoop_total [of createMockValidators rnd] by auto
  from selectLoop_Some [OF this] have "v \<in> set createMockValidators"
    by auto
  moreover have "selectValidator ?pos rnd = Inr v"
    using v \<open>sum_list (map Stake createMockValidators) \<noteq> 0\<close>
    by (simp add: selectValidator_def totalStake_foldl vs)
  ultimately show ?thesis by blast
qed

lemma selectValidator_threshold:
  "selectValidator (pos\<lparr>pos_threshold := t\<rparr>) rnd = selectValidator pos rnd"
  by (simp add: selectValidator_def Let_def split: option.splits)

lemma selectValidator_draw_0:
  "selectValidator (NewProofOfStake b) 0 =
     Inr \<lparr>Address = bytes_of_string ''validator1'', Stake = 1000, Balance = 5000\<rparr>"
  by (simp add: selectValidator_def NewProofOfStake_def createMockValidators_def)

section \<open>Proof of stake: validation and production\<close>

lemma validateLoop_iff:
  "validateLoop pos vs = (\<exists>v\<in>set vs. SetBytes (Sum256 (pos_prepareData pos v)) < pos_threshold pos)"
  by (induction vs) (auto simp: Cmp_less)

lemma pos_threshold_NewProofOfStake: "pos_threshold (NewProofOfStake b) = 2 ^ 255"
  by (simp add: NewProofOfStake_def Lsh_def)

lemma pos_prepareData_recorded:
  "pos_prepareData (NewProofOfStake (b\<lparr>ValidatorID := vid, Hash := h\<rparr>)) v =
     pos_prepareData (NewProofOfStake b) v"
  by (simp add: pos_prepareData_concat NewProofOfStake_def)

lemma pos_Validate_1700000010:
  "pos_Validate (NewProofOfStake ((genesis_at 1700000010)\<lparr>ValidatorID := vid, Hash := h\<rparr>))"
proof -
  have "SetBytes (Sum256 (pos_prepareData (NewProofOfStake (genesis_at 1700000010))
          \<lparr>Address = bytes_of_string ''validator2'', Stake = 2000, Balance = 8000\<rparr>)) < 2 ^ 255"
    by (simp add: Sum256_pos_1700000010_validator2 SetBytes_def)
  then show ?thesis
    by (simp only: pos_Validate_def validateLoop_iff pos_threshold_NewProofOfStake
          pos_prepareData_recorded)
      (simp add: NewProofOfStake_def createMockValidators_def)
qed

lemma pos_Validate_1700000006:
  "\<not> pos_Validate (NewProofOfStake ((genesis_at 1700000006)\<lparr>ValidatorID := vid, Hash := h\<rparr>))"
proof -
  have "\<not> SetBytes (Sum256 (pos_prepareData (NewProofOfStake (genesis_at 1700000006))
          \<lparr>Address = bytes_of_string ''validator1'', Stake = 1000, Balance = 5000\<rparr>)) < 2 ^ 255"
    and "\<not> SetBytes (Sum256 (pos_prepareData (NewProofOfStake (genesis_at 1700000006))
          \<lparr>Address = bytes_of_string ''validator2'', Stake = 2000, Balance = 8000\<rparr>)) < 2 ^ 255"
    and "\<not> SetBytes (Sum256 (pos_prepareData (NewProofOfStake (genesis_at 1700000006))
          \<lparr>Address = bytes_of_string ''validator3'', Stake = 3000, Balance = 10000\<rparr>)) < 2 ^ 255"
    by (simp_all add: Sum256_pos_1700000006_validator1 Sum256_pos_1700000006_validator2
          Sum256_pos_1700000006_validator3 SetBytes_def)
  then show ?thesis
    by (simp only: pos_Validate_def validateLoop_iff pos_threshold_NewProofOfStake
          pos_prepareData_recorded)
      (simp add: NewProofOfStake_def createMockValidators_def)
qed

text \<open>
  Claim C2. \<open>Validate\<close> of the proof of stake returns true if and only if some validator
  \<open>v\<close> of the registry of three entries gives a hash
  \<open>sha256(PrevBlockHash || Data || Timestamp || v.Address || v.Stake)\<close>, timestamp and
  stake as 8 big-endian bytes, that is strictly below \<open>2 ^ 255\<close> as an unsigned
  big-endian integer. The validator recorded in the block plays no role.
\<close>

theorem pos_Validate_any_validator:
  "pos_Validate (NewProofOfStake b) =
     (\<exists>v\<in>set createMockValidators.
        SetBytes (Sum256 (PrevBlockHash b @ Data b @ big_endian 8 (unat (Timestamp b)) @
                          Address v @ big_endian 8 (unat (Stake v)))) < 2 ^ 255) \<and>
   length createMockValidators = 3 \<and>
   pos_Validate (NewProofOfStake (b\<lparr>ValidatorID := vid\<rparr>)) = pos_Validate (NewProofOfStake b)"
proof -
  have "pos_Validate (NewProofOfStake b') =
     (\<exists>v\<in>set createMockValidators.
        SetBytes (Sum256 (PrevBlockHash b' @ Data b' @ big_endian 8 (unat (Timestamp b')) @
                          Address v @ big_endian 8 (unat (Stake v)))) < 2 ^ 255)" for b'
    by (simp add: pos_Validate_def validateLoop_iff pos_threshold_NewProofOfStake
          pos_prepareData_concat IntToHex_big_endian)
      (simp add: NewProofOfStake_def)
  then show ?thesis
    by (simp add: createMockValidators_def)
qed

theorem pos_Validate_any_validator_witness:
  "pos_Validate
     (NewProofOfStake ((genesis_at 1700000010)\<lparr>ValidatorID := bytes_of_string ''validator1''\<rparr>)) =
     (\<exists>v\<in>set createMockValidators.
        SetBytes (Sum256 ([] @ bytes_of_string ''Genesis Block'' @ big_endian 8 1700000010 @
                          Address v @ big_endian 8 (unat (Stake v)))) < 2 ^ 255) \<and>
   pos_Validate
     (NewProofOfStake ((genesis_at 1700000010)\<lparr>ValidatorID := bytes_of_string ''validator1''\<rparr>)) \<and>
   \<not> SetBytes (Sum256 (pos_prepareData (NewProofOfStake (genesis_at 1700000010))
          \<lparr>Address = bytes_of_string ''validator1'', Stake = 1000, Balance = 5000\<rparr>)) < 2 ^ 255"
proof -
  have 1: "\<not> SetBytes (Sum256 (pos_prepareData (NewProofOfStake (genesis_at 1700000010))
          \<lparr>Address = bytes_of_string ''validator1'', Stake = 1000, Balance = 5000\<rparr>)) < 2 ^ 255"
    by (simp add: Sum256_pos_1700000010_validator1 SetBytes_def)
  have 2: "pos_Validate (NewProofOfStake
      ((genesis_at 1700000010)\<lparr>ValidatorID := bytes_of_string ''validator1''\<rparr>))"
    using pos_Validate_1700000010 [where vid = "bytes_of_string ''validator1''" and h = "[]"]
    by (simp add: genesis_at_def)
  show ?thesis
    using pos_Validate_any_validator
      [of "(genesis_at 1700000010)\<lparr>ValidatorID := bytes_of_string ''validator1''\<rparr>"] 1 2
    by (simp add: genesis_at_def)
qed

text \<open>
  Claim C3. Whatever validator the selection yields, \<open>Run\<close> of the proof of stake returns
  that validator's address together with the hash of the block data serialized with
  that validator. The threshold is not consulted: the result is the same for every value
  of the threshold field. On the registry of \<open>NewProofOfStake\<close> the selection never
  fails, so \<open>Run\<close> always returns such a pair.
\<close>

theorem pos_Run_unconditional:
  "(selectValidator pos rnd = Inr v \<longrightarrow>
      pos_Run pos rnd = Inr (Address v, Sum256 (pos_prepareData pos v))) \<and>
   pos_Run (pos\<lparr>pos_threshold := t\<rparr>) rnd = pos_Run pos rnd \<and>
   (\<exists>w\<in>set createMockValidators.
      pos_Run (NewProofOfStake b) rnd =
        Inr (Address w, Sum256 (pos_prepareData (NewProofOfStake b) w)))"
proof -
  have 1: "pos_Run pos' rnd = Inr (Address v', Sum256 (pos_prepareData pos' v'))"
    if "selectValidator pos' rnd = Inr v'" for pos' v'
    using that by (simp add: pos_Run_def)
  have 2: "pos_Run (pos\<lparr>pos_threshold := t\<rparr>) rnd = pos_Run pos rnd"
    by (simp add: pos_Run_def selectValidator_threshold pos_prepareData_concat split: sum.splits)
  obtain w where "w \<in> set createMockValidators" "selectValidator (NewProofOfStake b) rnd = Inr w"
    using selectValidator_registry [of b rnd] by blast
  with 1 2 show ?thesis by blast
qed

theorem pos_Run_unconditional_witness:
  "pos_Run (NewProofOfStake (genesis_at 1700000006)) 0 =
     Inr (bytes_of_string ''validator1'',
          [255, 157, 217, 10, 72, 91, 66, 76, 87, 186, 50, 41, 228, 87, 123, 168, 75, 18, 234,
           231, 191, 231, 94, 18, 134, 185, 85, 18, 195, 74, 17, 180]) \<and>
   \<not> SetBytes [255, 157, 217, 10, 72, 91, 66, 76, 87, 186, 50, 41, 228, 87, 123, 168, 75, 18,
               234, 231, 191, 231, 94, 18, 134, 185, 85, 18, 195, 74, 17, 180]
       < pos_threshold (NewProofOfStake (genesis_at 1700000006))"
  using pos_Run_unconditional
    [of "NewProofOfStake (genesis_at 1700000006)" 0
        "\<lparr>Address = bytes_of_string ''validator1'', Stake = 1000, Balance = 5000\<rparr>"]
  by (simp add: selectValidator_draw_0 Sum256_pos_1700000006_validator1
        pos_threshold_NewProofOfStake SetBytes_def)

text \<open>
  A block produced by \<open>Run\<close> of the proof of stake need not pass \<open>Validate\<close>: at clock
  reading 1700000006 no validator of the registry has a hash below the threshold.
\<close>

lemma pos_Run_output_rejected:
  "\<exists>vid h. pos_Run (NewProofOfStake (genesis_at 1700000006)) 0 = Inr (vid, h) \<and>
     \<not> pos_Validate (NewProofOfStake ((genesis_at 1700000006)\<lparr>ValidatorID := vid, Hash := h\<rparr>))"
  using pos_Validate_1700000006 selectValidator_draw_0 [of "genesis_at 1700000006"]
  by (simp add: pos_Run_def)

section \<open>The hash field of a block\<close>

lemma IntToHex_131228: "IntToHex 131228 = [0, 0, 0, 0, 0, 2, 0, 156]"
  by (simp add: IntToHex_def)

text \<open>
  Claim C4 as stated fails. The block below has a non-empty hash field that differs from
  the hash recomputed from its other fields and the nonce recorded in \<open>ValidatorID\<close>,
  and \<open>Validate\<close> accepts it: \<open>Validate\<close> does not compare the hash field with anything.
\<close>

theorem hash_field_counterexample:
  "Hash ((genesis_at 1700000000)\<lparr>ValidatorID := [0, 0, 0, 0, 0, 2, 0, 156], Hash := [0]\<rparr>) \<noteq> [] \<and>
   BigEndian_Uint64
     (ValidatorID ((genesis_at 1700000000)\<lparr>ValidatorID := [0, 0, 0, 0, 0, 2, 0, 156], Hash := [0]\<rparr>))
     = Inr 131228 \<and>
   Hash ((genesis_at 1700000000)\<lparr>ValidatorID := [0, 0, 0, 0, 0, 2, 0, 156], Hash := [0]\<rparr>) \<noteq>
     Sum256 (pow_prepareData
       (NewProofOfWork
          ((genesis_at 1700000000)\<lparr>ValidatorID := [0, 0, 0, 0, 0, 2, 0, 156], Hash := [0]\<rparr>))
       131228) \<and>
   pow_Validate
     (NewProofOfWork
        ((genesis_at 1700000000)\<lparr>ValidatorID := [0, 0, 0, 0, 0, 2, 0, 156], Hash := [0]\<rparr>))
     = Inr True"
proof -
  let ?b = "(genesis_at 1700000000)\<lparr>ValidatorID := [0, 0, 0, 0, 0, 2, 0, 156], Hash := [0]\<rparr>"
  have same: "pow_prepareData (NewProofOfWork ?b) 131228 =
                pow_prepareData (NewProofOfWork (genesis_at 1700000000)) 131228"
    by (simp add: pow_prepareData_concat pow_block_NewProofOfWork)
  have decode: "BigEndian_Uint64 (ValidatorID ?b) = Inr 131228"
    using BigEndian_Uint64_IntToHex [of 131228 "[]"] by (simp add: IntToHex_131228)
  have "length (Hash ?b) \<noteq> length (Sum256 (pow_prepareData (NewProofOfWork ?b) 131228))"
    by (simp add: length_Sum256)
  then have differ: "Hash ?b \<noteq> Sum256 (pow_prepareData (NewProofOfWork ?b) 131228)"
    by auto
  have "pow_Validate (NewProofOfWork ?b) =
          Inr (SetBytes (Sum256 (pow_prepareData (NewProofOfWork ?b) 131228))
                 < pow_target (NewProofOfWork ?b))"
    by (rule pow_Validate_nonce)
      (simp_all add: MaxInt64_def pow_block_NewProofOfWork IntToHex_131228)
  then have valid: "pow_Validate (NewProofOfWork ?b) = Inr True"
    by (simp add: same Sum256_genesis_1700000000 SetBytes_def pow_target_NewProofOfWork)
  from decode differ valid show ?thesis
    by simp
qed

lemma NewConsensus_POW: "NewConsensus POW b = PoW (NewProofOfWork b)"
  by (simp add: NewConsensus_def POW_def POS_def)

lemma NewConsensus_POS: "NewConsensus POS b = PoS (NewProofOfStake b)"
  by (simp add: NewConsensus_def)

lemma Consensus_Validate_ignores_Hash:
  "Consensus_Validate (NewConsensus t (b\<lparr>Hash := h\<rparr>)) = Consensus_Validate (NewConsensus t b)"
proof (cases "t = POS")
  case True
  then show ?thesis
    by (simp add: NewConsensus_def pos_Validate_def validateLoop_iff pos_prepareData_concat)
      (simp add: NewProofOfStake_def)
next
  case False
  then show ?thesis
    by (simp add: NewConsensus_def pow_Validate_def pow_prepareData_concat
          pow_block_NewProofOfWork pow_target_NewProofOfWork split: sum.splits)
qed

text \<open>
  Claim C4, as the code has it. \<open>NewBlock\<close> is what sets the hash field, and for the
  blocks it returns the field equals the recomputed hash: under the proof of work, when
  the search finds a nonce below the loop bound, the hash of the other fields with the
  nonce decoded from \<open>ValidatorID\<close>; under the proof of stake, always, the hash of the
  other fields with the registry validator whose address is \<open>ValidatorID\<close>.
  \<open>Validate\<close> does not check this equality: it never reads the hash field, so its
  result is the same for every value of that field, for every block and either
  algorithm.
\<close>

theorem hash_field_set_by_NewBlock:
  "(0 \<le> n \<and> n < MaxInt64 \<and>
    SetBytes (Sum256 (pow_prepareData
      (NewProofOfWork \<lparr>Timestamp = now, Data = bytes_of_string data,
         PrevBlockHash = prevBlockHash, Hash = [], ValidatorID = []\<rparr>) n)) < 2 ^ 240 \<longrightarrow>
    (\<exists>blk u. NewBlock now rnd data prevBlockHash POW = Inr blk \<and>
       BigEndian_Uint64 (ValidatorID blk) = Inr u \<and>
       Hash blk = Sum256 (pow_prepareData (NewProofOfWork blk) (sint u)))) \<and>
   (\<exists>blk v. NewBlock now rnd data prevBlockHash POS = Inr blk \<and>
      v \<in> set createMockValidators \<and> ValidatorID blk = Address v \<and>
      Hash blk = Sum256 (pos_prepareData (NewProofOfStake blk) v)) \<and>
   Consensus_Validate (NewConsensus t (b\<lparr>Hash := h\<rparr>)) =
     Consensus_Validate (NewConsensus t b)"
proof -
  let ?b = "\<lparr>Timestamp = now, Data = bytes_of_string data,
              PrevBlockHash = prevBlockHash, Hash = [], ValidatorID = []\<rparr>"
  let ?pow = "NewProofOfWork ?b"
  let ?wins = "\<lambda>m. SetBytes (Sum256 (pow_prepareData ?pow m)) < pow_target ?pow"
  have pow: "\<exists>blk u. NewBlock now rnd data prevBlockHash POW = Inr blk \<and>
            BigEndian_Uint64 (ValidatorID blk) = Inr u \<and>
            Hash blk = Sum256 (pow_prepareData (NewProofOfWork blk) (sint u))"
    if n: "0 \<le> n" "n < MaxInt64" "SetBytes (Sum256 (pow_prepareData ?pow n)) < 2 ^ 240"
  proof -
    from n(3) have "?wins n" by (simp add: pow_target_NewProofOfWork)
    with n(1) obtain n0 where n0: "0 \<le> n0" "n0 \<le> n" "?wins n0"
      "\<forall>m. 0 \<le> m \<and> m < n0 \<longrightarrow> \<not> ?wins m"
      using least_winning_nonce [of n ?wins] by blast
    from n0(2) n(2) have bound: "n0 < MaxInt64" by simp
    have run: "pow_Run ?pow = (IntToHex (word_of_int n0), Sum256 (pow_prepareData ?pow n0))"
      using n0(1) bound n0(3) n0(4) by (rule pow_Run_found)
    let ?blk = "?b\<lparr>Hash := Sum256 (pow_prepareData ?pow n0), ValidatorID := IntToHex (word_of_int n0)\<rparr>"
    have "NewBlock now rnd data prevBlockHash POW = Inr ?blk"
      by (simp add: NewBlock_def NewConsensus_POW run)
    moreover have "BigEndian_Uint64 (ValidatorID ?blk) = Inr (word_of_int n0)"
      using BigEndian_Uint64_IntToHex [of "word_of_int n0" "[]"] by simp
    moreover have "Hash ?blk = Sum256 (pow_prepareData (NewProofOfWork ?blk) (sint (word_of_int n0 :: 64 word)))"
      using n0(1) bound by (simp add: sint_nonce pow_prepareData_concat pow_block_NewProofOfWork)
    ultimately show ?thesis by blast
  qed
  obtain w where w: "w \<in> set createMockValidators" "selectValidator (NewProofOfStake ?b) rnd = Inr w"
    using selectValidator_registry [of ?b rnd] by blast
  let ?blk' = "?b\<lparr>Hash := Sum256 (pos_prepareData (NewProofOfStake ?b) w), ValidatorID := Address w\<rparr>"
  have "NewBlock now rnd data prevBlockHash POS = Inr ?blk'"
    using w(2) by (simp add: NewBlock_def NewConsensus_POS pos_Run_def)
  moreover have "Hash ?blk' = Sum256 (pos_prepareData (NewProofOfStake ?blk') w)"
    by (simp add: pos_prepareData_concat NewProofOfStake_def)
  ultimately have pos: "\<exists>blk v. NewBlock now rnd data prevBlockHash POS = Inr blk \<and>
            v \<in> set createMockValidators \<and> ValidatorID blk = Address v \<and>
            Hash blk = Sum256 (pos_prepareData (NewProofOfStake blk) v)"
    using w(1) by (intro exI [of _ ?blk'] exI [of _ w]) simp
  from pow pos show ?thesis
    by (simp add: Consensus_Validate_ignores_Hash)
qed

theorem hash_field_set_by_NewBlock_witness:
  "(\<exists>blk u. NewBlock 1700166994 4500 ''Genesis Block'' [] POW = Inr blk \<and>
      BigEndian_Uint64 (ValidatorID blk) = Inr u \<and>
      Hash blk = Sum256 (pow_prepareData (NewProofOfWork blk) (sint u))) \<and>
   (\<exists>blk v. NewBlock 1700166994 4500 ''Genesis Block'' [] POS = Inr blk \<and>
      v \<in> set createMockValidators \<and> ValidatorID blk = Address v \<and>
      Hash blk = Sum256 (pos_prepareData (NewProofOfStake blk) v)) \<and>
   Consensus_Validate
     (NewConsensus POW
        ((genesis_at 1700000000)\<lparr>ValidatorID := [0, 0, 0, 0, 0, 2, 0, 156], Hash := [0]\<rparr>)) =
   Consensus_Validate
     (NewConsensus POW ((genesis_at 1700000000)\<lparr>ValidatorID := [0, 0, 0, 0, 0, 2, 0, 156]\<rparr>)) \<and>
   Consensus_Validate
     (NewConsensus POW ((genesis_at 1700000000)\<lparr>ValidatorID := [0, 0, 0, 0, 0, 2, 0, 156]\<rparr>)) =
     Inr True \<and>
   Consensus_Validate
     (NewConsensus POS
        ((genesis_at 1700000010)\<lparr>ValidatorID := bytes_of_string ''validator1'', Hash := [0]\<rparr>)) =
   Consensus_Validate
     (NewConsensus POS ((genesis_at 1700000010)\<lparr>ValidatorID := bytes_of_string ''validator1''\<rparr>)) \<and>
   Consensus_Validate
     (NewConsensus POS ((genesis_at 1700000010)\<lparr>ValidatorID := bytes_of_string ''validator1''\<rparr>)) =
     Inr True"
proof -
  let ?w = "(genesis_at 1700000000)\<lparr>ValidatorID := [0, 0, 0, 0, 0, 2, 0, 156]\<rparr>"
  let ?s = "(genesis_at 1700000010)\<lparr>ValidatorID := bytes_of_string ''validator1''\<rparr>"
  have win: "SetBytes (Sum256 (pow_prepareData
           (NewProofOfWork \<lparr>Timestamp = 1700166994, Data = bytes_of_string ''Genesis Block'',
              PrevBlockHash = [], Hash = [], ValidatorID = []\<rparr>) 1)) < 2 ^ 240"
    using Sum256_genesis_1700166994_nonce1 by (simp add: genesis_at_def SetBytes_def)
  have "pow_Validate (NewProofOfWork ?w) =
          Inr (SetBytes (Sum256 (pow_prepareData (NewProofOfWork ?w) 131228))
                 < pow_target (NewProofOfWork ?w))"
    by (rule pow_Validate_nonce)
      (simp_all add: MaxInt64_def pow_block_NewProofOfWork IntToHex_131228)
  moreover have "pow_prepareData (NewProofOfWork ?w) 131228 =
                pow_prepareData (NewProofOfWork (genesis_at 1700000000)) 131228"
    by (simp add: pow_prepareData_concat pow_block_NewProofOfWork)
  ultimately have powv: "Consensus_Validate (NewConsensus POW ?w) = Inr True"
    by (simp add: NewConsensus_POW Sum256_genesis_1700000000 SetBytes_def pow_target_NewProofOfWork)
  have "pos_Validate (NewProofOfStake ?s)"
    using pos_Validate_1700000010 [where vid = "bytes_of_string ''validator1''" and h = "[]"]
    by (simp add: genesis_at_def)
  then have posv: "Consensus_Validate (NewConsensus POS ?s) = Inr True"
    by (simp add: NewConsensus_POS)
  from hash_field_set_by_NewBlock
    [where n = 1 and now = 1700166994 and data = "''Genesis Block''" and prevBlockHash = "[]"
       and rnd = 4500 and t = POW and b = ?w and h = "[0]"]
    hash_field_set_by_NewBlock
    [where n = 1 and now = 1700166994 and data = "''Genesis Block''" and prevBlockHash = "[]"
       and rnd = 4500 and t = POS and b = ?s and h = "[0]"]
    win powv posv
  show ?thesis
    by (simp add: MaxInt64_def)
qed

end
